theory Spec2Isabelle
  imports Complex_Main "HOL-Library.AList" "HOL-Library.Word" "HOL-Library.Log_Nat"
begin

section \<open>Strings of the language\<close>

text \<open>
  A string of the language is a sequence of 16-bit code units. \<open>js\<close> writes a string
  literal of the source, character by character: a character of a literal is the code
  unit of that number.
\<close>

type_synonym codeunit = "16 word"

type_synonym jsstring = "codeunit list"

definition codeUnit :: "char \<Rightarrow> codeunit" where
  "codeUnit c = of_nat (of_char c)"

definition js :: "string \<Rightarrow> jsstring" where
  "js s = map codeUnit s"

section \<open>Field and key names (module Utilities)\<close>

definition DEPLOYMENT_SUCCEEDED :: jsstring where
  "DEPLOYMENT_SUCCEEDED = js ''DeploymentSucceeded''"

definition DEPLOYMENT_FAILED :: jsstring where
  "DEPLOYMENT_FAILED = js ''DeploymentFailed''"

definition ACTIVE :: jsstring where
  "ACTIVE = js ''Active''"

definition DOWNLOADED :: jsstring where
  "DOWNLOADED = js ''Downloaded''"

definition isValidDeploymentStatus :: "jsstring \<Rightarrow> bool" where
  "isValidDeploymentStatus status \<longleftrightarrow>
     status = DEPLOYMENT_SUCCEEDED \<or> status = DEPLOYMENT_FAILED \<or> status = DOWNLOADED"

text \<open>
  A TypeScript \<open>string\<close> result that may be \<open>null\<close> is a \<open>jsstring option\<close>, with
  \<open>None\<close> for \<open>null\<close> (and for \<open>undefined\<close>, where an optional parameter is left out).
\<close>

definition getLabelStatusField :: "jsstring \<Rightarrow> jsstring \<Rightarrow> jsstring option" where
  "getLabelStatusField label status =
     (if isValidDeploymentStatus status then Some (label @ js '':'' @ status) else None)"

text \<open>\<open>if (label)\<close> on a string: the empty string is falsy.\<close>

definition getLabelActiveCountField :: "jsstring \<Rightarrow> jsstring option" where
  "getLabelActiveCountField label =
     (if label \<noteq> [] then Some (label @ js '':'' @ ACTIVE) else None)"

definition getDeploymentKeyHash :: "jsstring \<Rightarrow> jsstring" where
  "getDeploymentKeyHash deploymentKey = js ''deploymentKey:'' @ deploymentKey"

definition getDeploymentKeyLabelsHash :: "jsstring \<Rightarrow> jsstring" where
  "getDeploymentKeyLabelsHash deploymentKey = js ''deploymentKeyLabels:'' @ deploymentKey"


text \<open>Truthiness of an optional string argument: \<open>undefined\<close> and \<open>""\<close> are falsy.\<close>

definition truthy :: "jsstring option \<Rightarrow> bool" where
  "truthy v = (case v of None \<Rightarrow> False | Some s \<Rightarrow> s \<noteq> [])"

section \<open>Promises\<close>

text \<open>
  What a rejected promise or a thrown exception carries. \<open>Error\<close> is the manager's own
  \<open>new Error(message)\<close>; \<open>ReplyError\<close> is an error answered or raised by the store
  client; \<open>SyntaxError\<close> is thrown by \<open>JSON.parse\<close>, \<open>TypeError\<close> by
  \<open>JSON.stringify\<close>.
\<close>

datatype error = Error string | ReplyError string | SyntaxError | TypeError

text \<open>
  A promise chain of one call of a public method, run to its settlement: a function from
  the state before to the outcome (\<open>Inl\<close> rejected, \<open>Inr\<close> resolved) and the state
  after. The calls of the public methods are taken one after the other: a call starts
  when the chain of the one before it has settled.
\<close>

type_synonym ('a, 's) promise = "'s \<Rightarrow> (error + 'a) \<times> 's"

definition q :: "'a \<Rightarrow> ('a, 's) promise" where
  "q v = (\<lambda>s. (Inr v, s))"

definition q_reject :: "error \<Rightarrow> ('a, 's) promise" where
  "q_reject e = (\<lambda>s. (Inl e, s))"

definition then_p :: "('a, 's) promise \<Rightarrow> ('a \<Rightarrow> ('b, 's) promise) \<Rightarrow> ('b, 's) promise" where
  "then_p p f = (\<lambda>s. case p s of (Inl e, s') \<Rightarrow> (Inl e, s') | (Inr v, s') \<Rightarrow> f v s')"

definition catch_p :: "('a, 's) promise \<Rightarrow> (error \<Rightarrow> ('a, 's) promise) \<Rightarrow> ('a, 's) promise" where
  "catch_p p h = (\<lambda>s. case p s of (Inl e, s') \<Rightarrow> h e s' | (Inr v, s') \<Rightarrow> (Inr v, s'))"

section \<open>The store client (class PromisifiedRedisClient)\<close>

text \<open>A command queued on a batch object (\<open>batchClient.hincrby\<close>, \<open>batchClient.hset\<close>).\<close>

datatype batch_command =
    BatchHincrby jsstring "jsstring option" int
  | BatchHset jsstring jsstring jsstring

text \<open>
  The client library is not part of the repository: a client is any implementation of
  the methods the manager binds, over any type \<open>'w\<close> of states of the world outside the
  manager (connection and store). \<open>ready\<close> is the handle's \<open>ready\<close> flag. The handle
  \<open>_opsClient\<close> and its wrapper \<open>_promisifiedOpsClient\<close> are created together and are
  one record here. A field name that may be \<open>null\<close> at run time (the result of
  \<open>getLabelStatusField\<close>) is a \<open>jsstring option\<close>. \<open>execBatch\<close> takes the commands queued
  on the batch object and answers one reply per command.
\<close>

record 'w RedisClient =
  ready :: "'w \<Rightarrow> bool"
  del :: "jsstring list \<Rightarrow> 'w \<Rightarrow> (error + int) \<times> 'w"
  execBatch :: "batch_command list \<Rightarrow> 'w \<Rightarrow> (error + (error + int) list) \<times> 'w"
  exists :: "jsstring \<Rightarrow> 'w \<Rightarrow> (error + int) \<times> 'w"
  expire :: "jsstring \<Rightarrow> int \<Rightarrow> 'w \<Rightarrow> (error + int) \<times> 'w"
  hdel :: "jsstring \<Rightarrow> jsstring \<Rightarrow> 'w \<Rightarrow> (error + int) \<times> 'w"
  hget :: "jsstring \<Rightarrow> jsstring \<Rightarrow> 'w \<Rightarrow> (error + jsstring option) \<times> 'w"
  hgetall :: "jsstring \<Rightarrow> 'w \<Rightarrow> (error + (jsstring \<times> jsstring) list option) \<times> 'w"
  hincrby :: "jsstring \<Rightarrow> jsstring option \<Rightarrow> int \<Rightarrow> 'w \<Rightarrow> (error + int) \<times> 'w"
  hset :: "jsstring \<Rightarrow> jsstring \<Rightarrow> jsstring \<Rightarrow> 'w \<Rightarrow> (error + int) \<times> 'w"
  select :: "nat \<Rightarrow> 'w \<Rightarrow> (error + unit) \<times> 'w"
  set_cmd :: "jsstring \<Rightarrow> jsstring \<Rightarrow> 'w \<Rightarrow> (error + unit) \<times> 'w"

section \<open>The manager (class RedisManager)\<close>

definition DEFAULT_EXPIRY :: int where
  "DEFAULT_EXPIRY = 3600"

definition METRICS_DB :: nat where
  "METRICS_DB = 1"

text \<open>
  The fields the constructor assigns once: a handle that was not created is \<open>None\<close>
  (\<open>undefined\<close>).
\<close>

record 'w RedisManager =
  opsClient :: "'w RedisClient option"
  metricsClient :: "'w RedisClient option"

text \<open>
  The state a call runs in: the manager's one mutable field and the world of the
  clients. \<open>setupMetricsClientPromise\<close> is \<open>None\<close> for \<open>null\<close> and \<open>Some ()\<close> for the
  memoized promise, which between two calls is a fulfilled one (a failed set-up clears
  the field before its promise rejects).
\<close>

record 'w state =
  setupMetricsClientPromise :: "unit option"
  world :: 'w

text \<open>The environment variables the constructor reads.\<close>

record env =
  REDIS_HOST :: "jsstring option"
  REDIS_PORT :: "jsstring option"
  REDIS_KEY :: "jsstring option"
  REDIS_TLS :: "jsstring option"

text \<open>
  The constructor, given the two handles \<open>redis.createClient\<close> would return: both are
  created, or neither.
\<close>

definition constructor :: "env \<Rightarrow> 'w RedisClient \<Rightarrow> 'w RedisClient \<Rightarrow> 'w RedisManager" where
  "constructor e ops metrics =
     (if truthy (REDIS_HOST e) \<and> truthy (REDIS_PORT e)
      then \<lparr>opsClient = Some ops, metricsClient = Some metrics\<rparr>
      else \<lparr>opsClient = None, metricsClient = None\<rparr>)"

definition isEnabled :: "'w RedisManager \<Rightarrow> bool" where
  "isEnabled this \<longleftrightarrow> opsClient this \<noteq> None \<and> metricsClient this \<noteq> None"

text \<open>A method of a client, run on the world inside the state.\<close>

definition invoke :: "('w \<Rightarrow> (error + 'a) \<times> 'w) \<Rightarrow> ('a, 'w state) promise" where
  "invoke f = (\<lambda>s. case f (world s) of (r, w') \<Rightarrow> (r, s\<lparr>world := w'\<rparr>))"

text \<open>
  \<open>ensureMetricsSetup\<close>, run to the settlement of the promise it returns. The case of
  an enabled manager without a metrics handle cannot arise (\<open>isEnabled\<close> excludes it).
\<close>

definition ensureMetricsSetup :: "'w RedisManager \<Rightarrow> (unit, 'w state) promise" where
  "ensureMetricsSetup this = (\<lambda>s.
     if \<not> isEnabled this then q_reject (Error ''Redis manager is not enabled'') s
     else if setupMetricsClientPromise s \<noteq> None then q () s
     else case metricsClient this of
       None \<Rightarrow> q_reject TypeError s
     | Some c \<Rightarrow>
         if \<not> ready c (world s) then q_reject (Error ''Redis metrics client is not ready'') s
         else catch_p
                (then_p (then_p (then_p (q ())
                   (\<lambda>_. invoke (select c METRICS_DB)))
                   (\<lambda>_. invoke (set_cmd c (js ''health'') (js ''health''))))
                   (\<lambda>_. q ()))
                (\<lambda>err s'. q_reject err (s'\<lparr>setupMetricsClientPromise := None\<rparr>))
                (s\<lparr>setupMetricsClientPromise := Some ()\<rparr>))"

text \<open>
  \<open>_safeCall\<close>: the method name and its arguments are the method \<open>m\<close>, already applied
  to its arguments. Every name the manager passes is bound by the wrapper's constructor,
  so the \<open>typeof func !== "function"\<close> branch is never taken.
\<close>

definition safeCall ::
  "'w RedisManager \<Rightarrow> 'w RedisClient option \<Rightarrow> ('w RedisClient \<Rightarrow> 'w \<Rightarrow> (error + 'a) \<times> 'w)
     \<Rightarrow> ('a, 'w state) promise" where
  "safeCall this client m = (\<lambda>s.
     case client of
       None \<Rightarrow> q_reject (Error ''Redis client is not ready'') s
     | Some c \<Rightarrow>
         if \<not> isEnabled this \<or> \<not> ready c (world s)
         then q_reject (Error ''Redis client is not ready'') s
         else invoke (m c) s)"

subsection \<open>Response cache\<close>

text \<open>
  \<open>JSON.stringify\<close> and \<open>JSON.parse\<close> are built into the language: they are parameters,
  and each may throw. \<open>'r\<close> is the type of the values cached (\<open>CacheableResponse\<close>).
\<close>

record 'b CacheableResponse =
  statusCode :: int
  body :: 'b

record 'r JSON =
  stringify :: "'r \<Rightarrow> error + jsstring"
  parse :: "jsstring \<Rightarrow> error + 'r"

definition getCachedResponse ::
  "'r JSON \<Rightarrow> 'w RedisManager \<Rightarrow> jsstring \<Rightarrow> jsstring \<Rightarrow> ('r option, 'w state) promise" where
  "getCachedResponse json this expiryKey url =
     catch_p
       (then_p (safeCall this (opsClient this) (\<lambda>c. hget c expiryKey url))
          (\<lambda>serializedResponse.
             case serializedResponse of
               None \<Rightarrow> q None
             | Some text \<Rightarrow>
                 if text \<noteq> []
                 then (case parse json text of
                         Inl e \<Rightarrow> q_reject e
                       | Inr response \<Rightarrow> q (Some response))
                 else q None))
       (\<lambda>_. q None)"

text \<open>
  \<open>JSON.stringify\<close> runs before the chain is built: what it throws leaves
  \<open>setCachedResponse\<close> as an exception, which is the outcome \<open>Inl\<close> here too.
  The variable \<open>isNewKey\<close>, assigned in the first handler and read in the second, is
  the value the first passes on; \<open>!isExisting\<close> on a number is \<open>isExisting = 0\<close>.
\<close>

definition setCachedResponse ::
  "'r JSON \<Rightarrow> 'w RedisManager \<Rightarrow> jsstring \<Rightarrow> jsstring \<Rightarrow> 'r \<Rightarrow> (unit, 'w state) promise" where
  "setCachedResponse json this expiryKey url response =
     (case stringify json response of
        Inl e \<Rightarrow> q_reject e
      | Inr serializedResponse \<Rightarrow>
          catch_p
            (then_p (then_p (then_p
               (safeCall this (opsClient this) (\<lambda>c. exists c expiryKey))
               (\<lambda>isExisting.
                  then_p (safeCall this (opsClient this)
                            (\<lambda>c. hset c expiryKey url serializedResponse))
                    (\<lambda>_. q (isExisting = 0))))
               (\<lambda>isNewKey.
                  if isNewKey
                  then then_p (safeCall this (opsClient this)
                                 (\<lambda>c. expire c expiryKey DEFAULT_EXPIRY))
                         (\<lambda>_. q ())
                  else q ()))
               (\<lambda>_. q ()))
            (\<lambda>_. q ()))"


subsection \<open>Strings as numbers (the built-in isNaN and unary plus)\<close>

text \<open>
  \<open>isNaN(v)\<close> and \<open>+v\<close> on a string \<open>v\<close> both go through the language's conversion of a
  string to a number (\<open>StringToNumber\<close> in the standard), which follows the grammar of
  numeric string literals: optional white space around either nothing (the number 0), a
  signed decimal literal with an optional fraction and exponent, \<open>Infinity\<close>, or an
  unsigned binary, octal or hexadecimal integer literal. Every other string is \<open>NaN\<close>.

  A number of the language is a double: \<open>NaN\<close>, an infinity, the negative zero, or a
  finite value, kept as the rational number it is (\<open>Finite 0\<close> is the positive zero).
\<close>

datatype jsnumber = NaN | PosInfinity | NegInfinity | NegZero | Finite rat

datatype jsvalue = JSNumber jsnumber | JSString jsstring

text \<open>
  \<open>StrWhiteSpaceChar\<close>: the white space of the language (tab, vertical tab, form feed,
  the byte order mark U+FEFF and the space separators of Unicode: U+0020, U+00A0, U+1680,
  U+2000 to U+200A, U+202F, U+205F, U+3000) and its line terminators (line feed,
  carriage return, U+2028, U+2029).
\<close>

definition isStrWhiteSpaceChar :: "codeunit \<Rightarrow> bool" where
  "isStrWhiteSpaceChar c \<longleftrightarrow>
     c \<in> set [0x0009, 0x000B, 0x000C, 0xFEFF, 0x0020, 0x00A0, 0x1680, 0x202F, 0x205F, 0x3000,
               0x000A, 0x000D, 0x2028, 0x2029]
     \<or> (0x2000 \<le> c \<and> c \<le> 0x200A)"

definition trimString :: "jsstring \<Rightarrow> jsstring" where
  "trimString s = rev (dropWhile isStrWhiteSpaceChar (rev (dropWhile isStrWhiteSpaceChar s)))"

text \<open>The value of a digit, of a letter as a hexadecimal digit; 36 for any other code unit.\<close>

definition digitValue :: "codeunit \<Rightarrow> nat" where
  "digitValue c =
     (let n = unat c in
      if 48 \<le> n \<and> n \<le> 57 then n - 48
      else if 97 \<le> n \<and> n \<le> 102 then n - 87
      else if 65 \<le> n \<and> n \<le> 70 then n - 55
      else 36)"

definition isDigitOfBase :: "nat \<Rightarrow> codeunit \<Rightarrow> bool" where
  "isDigitOfBase b c \<longleftrightarrow> digitValue c < b"

definition digitsValue :: "nat \<Rightarrow> jsstring \<Rightarrow> nat" where
  "digitsValue b ds = foldl (\<lambda>a c. b * a + digitValue c) 0 ds"

definition digitsOfBase :: "nat \<Rightarrow> jsstring \<Rightarrow> nat option" where
  "digitsOfBase b ds =
     (if ds \<noteq> [] \<and> list_all (isDigitOfBase b) ds then Some (digitsValue b ds) else None)"

definition signedInteger :: "jsstring \<Rightarrow> int option" where
  "signedInteger ds =
     (case ds of
        [] \<Rightarrow> None
      | c # r \<Rightarrow>
          if c = codeUnit CHR ''+'' then map_option int (digitsOfBase 10 r)
          else if c = codeUnit CHR ''-'' then map_option (\<lambda>n. - int n) (digitsOfBase 10 r)
          else map_option int (digitsOfBase 10 ds))"

definition exponentPart :: "jsstring \<Rightarrow> int option" where
  "exponentPart r =
     (case r of
        [] \<Rightarrow> Some 0
      | c # ds \<Rightarrow> if c = codeUnit CHR ''e'' \<or> c = codeUnit CHR ''E'' then signedInteger ds else None)"

text \<open>
  The double for the exact value of a literal (a rational that is not negative): the
  nearest double, the one with an even significand when two are as near; the infinity
  from \<open>2 ^ 1024 - 2 ^ 970\<close> on; doubles are \<open>2 ^ (e - 52)\<close> apart between \<open>2 ^ e\<close> and
  \<open>2 ^ (e + 1)\<close>, and \<open>2 ^ - 1074\<close> apart below \<open>2 ^ - 1022\<close>. (The standard lets an
  implementation drop the digits after the twentieth before rounding; the engine of
  Node rounds the exact value.) \<open>floorLog2 x\<close> is the \<open>e\<close> with
  \<open>2 ^ e \<le> x < 2 ^ (e + 1)\<close>, from the lengths in bits of numerator and denominator.
\<close>

definition floorLog2 :: "rat \<Rightarrow> int" where
  "floorLog2 x =
     (case quotient_of x of
        (a, b) \<Rightarrow> let k = bitlen a - bitlen b in if 2 powi k \<le> x then k else k - 1)"

definition roundTiesToEven :: "rat \<Rightarrow> int" where
  "roundTiesToEven x =
     (let n = \<lfloor>x\<rfloor>; r = x - of_int n
      in if r < 1 / 2 then n else if 1 / 2 < r then n + 1 else if even n then n else n + 1)"

definition RoundMVResult :: "rat \<Rightarrow> jsnumber" where
  "RoundMVResult x =
     (if x = 0 then Finite 0
      else
        let e = max (floorLog2 x) (- 1022);
            ulp = 2 powi (e - 52);
            y = of_int (roundTiesToEven (x / ulp)) * ulp
        in if 2 ^ 1024 \<le> y then PosInfinity else Finite y)"

definition strUnsignedDecimalLiteral :: "jsstring \<Rightarrow> jsnumber" where
  "strUnsignedDecimalLiteral s =
     (if s = js ''Infinity'' then PosInfinity
      else
        let ip = takeWhile (isDigitOfBase 10) s;
            r1 = dropWhile (isDigitOfBase 10) s;
            dotted = (r1 \<noteq> [] \<and> hd r1 = codeUnit CHR ''.'');
            fp = (if dotted then takeWhile (isDigitOfBase 10) (tl r1) else []);
            r2 = (if dotted then dropWhile (isDigitOfBase 10) (tl r1) else r1)
        in if ip = [] \<and> fp = [] then NaN
           else case exponentPart r2 of
                  None \<Rightarrow> NaN
                | Some e \<Rightarrow>
                    RoundMVResult
                      (of_nat (digitsValue 10 (ip @ fp)) * 10 powi (e - int (length fp))))"

text \<open>The sign is applied to the double: the negative of the positive zero is \<open>-0\<close>.\<close>

definition negate :: "jsnumber \<Rightarrow> jsnumber" where
  "negate n =
     (case n of
        NaN \<Rightarrow> NaN
      | PosInfinity \<Rightarrow> NegInfinity
      | NegInfinity \<Rightarrow> PosInfinity
      | NegZero \<Rightarrow> Finite 0
      | Finite x \<Rightarrow> if x = 0 then NegZero else Finite (- x))"

definition strDecimalLiteral :: "jsstring \<Rightarrow> jsnumber" where
  "strDecimalLiteral s =
     (case s of
        [] \<Rightarrow> NaN
      | c # r \<Rightarrow>
          if c = codeUnit CHR ''+'' then strUnsignedDecimalLiteral r
          else if c = codeUnit CHR ''-'' then negate (strUnsignedDecimalLiteral r)
          else strUnsignedDecimalLiteral s)"

definition nonDecimalIntegerLiteral :: "jsstring \<Rightarrow> nat option" where
  "nonDecimalIntegerLiteral s =
     (case s of
        c # p # ds \<Rightarrow>
          if c \<noteq> codeUnit CHR ''0'' then None
          else if p = codeUnit CHR ''b'' \<or> p = codeUnit CHR ''B'' then digitsOfBase 2 ds
          else if p = codeUnit CHR ''o'' \<or> p = codeUnit CHR ''O'' then digitsOfBase 8 ds
          else if p = codeUnit CHR ''x'' \<or> p = codeUnit CHR ''X'' then digitsOfBase 16 ds
          else None
      | _ \<Rightarrow> None)"

definition StringToNumber :: "jsstring \<Rightarrow> jsnumber" where
  "StringToNumber s =
     (let t = trimString s in
      if t = [] then Finite 0
      else case nonDecimalIntegerLiteral t of
             Some n \<Rightarrow> RoundMVResult (of_nat n)
           | None \<Rightarrow> strDecimalLiteral t)"

definition isNaN :: "jsstring \<Rightarrow> bool" where
  "isNaN s \<longleftrightarrow> StringToNumber s = NaN"

subsection \<open>Metrics\<close>

definition incrementLabelStatusCount ::
  "'w RedisManager \<Rightarrow> jsstring \<Rightarrow> jsstring \<Rightarrow> jsstring \<Rightarrow> (unit, 'w state) promise" where
  "incrementLabelStatusCount this deploymentKey label status =
     (let hash = getDeploymentKeyLabelsHash deploymentKey;
          field = getLabelStatusField label status
      in catch_p
           (then_p (then_p (ensureMetricsSetup this)
              (\<lambda>_. safeCall this (metricsClient this) (\<lambda>c. hincrby c hash field 1)))
              (\<lambda>_. q ()))
           (\<lambda>_. q ()))"


text \<open>
  The object \<open>hgetall\<close> answers is the list of its fields; the loop over
  \<open>Object.keys(metrics)\<close> rewrites the value of each.
\<close>

definition getMetricsWithDeploymentKey ::
  "'w RedisManager \<Rightarrow> jsstring \<Rightarrow> ((jsstring \<times> jsvalue) list option, 'w state) promise" where
  "getMetricsWithDeploymentKey this deploymentKey =
     catch_p
       (then_p (then_p (ensureMetricsSetup this)
          (\<lambda>_. safeCall this (metricsClient this)
                  (\<lambda>c. hgetall c (getDeploymentKeyLabelsHash deploymentKey))))
          (\<lambda>metrics.
             q (map_option
                  (map (\<lambda>(metricField, v).
                     (metricField, if \<not> isNaN v then JSNumber (StringToNumber v) else JSString v)))
                  metrics)))
       (\<lambda>_. q None)"

definition recordUpdate ::
  "'w RedisManager \<Rightarrow> jsstring \<Rightarrow> jsstring \<Rightarrow> jsstring option \<Rightarrow> jsstring option
     \<Rightarrow> (unit, 'w state) promise" where
  "recordUpdate this currentDeploymentKey currentLabel previousDeploymentKey previousLabel =
     catch_p
       (then_p (then_p (ensureMetricsSetup this)
          (\<lambda>_.
             let currentDeploymentKeyLabelsHash = getDeploymentKeyLabelsHash currentDeploymentKey;
                 currentLabelActiveField = getLabelActiveCountField currentLabel;
                 currentLabelDeploymentSucceededField =
                   getLabelStatusField currentLabel DEPLOYMENT_SUCCEEDED;
                 batchClient =
                   [BatchHincrby currentDeploymentKeyLabelsHash currentLabelActiveField 1,
                    BatchHincrby currentDeploymentKeyLabelsHash
                      currentLabelDeploymentSucceededField 1]
                   @ (case (previousDeploymentKey, previousLabel) of
                        (Some pk, Some pl) \<Rightarrow>
                          if pk \<noteq> [] \<and> pl \<noteq> []
                          then [BatchHincrby (getDeploymentKeyLabelsHash pk)
                                  (getLabelActiveCountField pl) (- 1)]
                          else []
                      | _ \<Rightarrow> [])
             in safeCall this (metricsClient this) (\<lambda>c. execBatch c batchClient)))
          (\<lambda>_. q ()))
       (\<lambda>_. q ())"




section \<open>A reference store\<close>

text \<open>
  The claims about what ends up in the store need a store. This one follows the
  documented behaviour of the commands the manager uses, on a server with numbered
  databases whose keys hold a string or a hash, each with an optional time to live, and
  of the client library on two connections. A hash is the list of its fields; the
  server keeps no empty hash. Time does not pass: nothing expires. Keys, field names and
  values are kept as the strings the client library takes and gives back; their coding
  on the wire is left out.
\<close>

datatype redis_value = StringValue jsstring | HashValue "(jsstring \<times> jsstring) list"

type_synonym keyspace = "jsstring \<Rightarrow> (redis_value \<times> int option) option"

datatype connection = Ops | Metrics

text \<open>A call the manager made on a client, as the log of the world keeps it.\<close>

datatype request =
    Del "jsstring list"
  | ExecBatch "batch_command list"
  | Exists jsstring
  | Expire jsstring int
  | Hdel jsstring jsstring
  | Hget jsstring jsstring
  | Hgetall jsstring
  | Hincrby jsstring "jsstring option" int
  | Hset jsstring jsstring jsstring
  | Select nat
  | Set jsstring jsstring

text \<open>
  What the client library does with a \<open>null\<close> argument depends on its version: it
  refuses the command with an error (from version 3 on), or sends the string
  \<open>"null"\<close> with a deprecation warning (version 2).
\<close>

datatype null_argument = Refused | Stringified

record redis =
  databases :: "nat \<Rightarrow> keyspace"
  selected :: "connection \<Rightarrow> nat"
  is_ready :: "connection \<Rightarrow> bool"
  null_argument :: null_argument
  calls :: "(connection \<times> request) list"

subsection \<open>Integers as the server stores them\<close>

text \<open>The decimal writing of a number: the digit \<open>d\<close> is the code unit \<open>48 + d\<close>.\<close>

fun show_nat :: "nat \<Rightarrow> jsstring" where
  "show_nat n =
     (if n < 10 then [of_nat (48 + n)] else show_nat (n div 10) @ [of_nat (48 + n mod 10)])"

declare show_nat.simps [simp del]

definition show_int :: "int \<Rightarrow> jsstring" where
  "show_int i = (if i < 0 then codeUnit CHR ''-'' # show_nat (nat (- i)) else show_nat (nat i))"

text \<open>
  The server reads a counter with \<open>string2ll\<close>: \<open>0\<close>, or an optional minus sign and
  digits without a leading zero, within 64 bits.
\<close>

definition string2ll :: "jsstring \<Rightarrow> int option" where
  "string2ll s =
     (if s = js ''0'' then Some 0
      else
        let negative = (s \<noteq> [] \<and> hd s = codeUnit CHR ''-'');
            ds = (if negative then tl s else s)
        in if ds \<noteq> [] \<and> hd ds \<noteq> codeUnit CHR ''0'' \<and> list_all (isDigitOfBase 10) ds
           then let v = (if negative then - int (digitsValue 10 ds) else int (digitsValue 10 ds))
                in if - (2 ^ 63) \<le> v \<and> v \<le> 2 ^ 63 - 1 then Some v else None
           else None)"

subsection \<open>Commands on one database\<close>

definition WRONGTYPE :: error where
  "WRONGTYPE = ReplyError ''WRONGTYPE Operation against a key holding the wrong kind of value''"

definition redis_del :: "jsstring list \<Rightarrow> keyspace \<Rightarrow> (error + int) \<times> keyspace" where
  "redis_del keys ks =
     fold (\<lambda>k (r, ks'). if ks' k = None then (r, ks')
                         else (map_sum id (\<lambda>n. n + 1) r, ks'(k := None)))
          keys (Inr 0, ks)"

definition redis_exists :: "jsstring \<Rightarrow> keyspace \<Rightarrow> (error + int) \<times> keyspace" where
  "redis_exists key ks = (Inr (if ks key = None then 0 else 1), ks)"

definition redis_expire :: "jsstring \<Rightarrow> int \<Rightarrow> keyspace \<Rightarrow> (error + int) \<times> keyspace" where
  "redis_expire key seconds ks =
     (case ks key of
        None \<Rightarrow> (Inr 0, ks)
      | Some (v, _) \<Rightarrow>
          if seconds \<le> 0 then (Inr 1, ks(key := None))
          else (Inr 1, ks(key \<mapsto> (v, Some seconds))))"

definition redis_hdel :: "jsstring \<Rightarrow> jsstring \<Rightarrow> keyspace \<Rightarrow> (error + int) \<times> keyspace" where
  "redis_hdel key field ks =
     (case ks key of
        None \<Rightarrow> (Inr 0, ks)
      | Some (StringValue _, _) \<Rightarrow> (Inl WRONGTYPE, ks)
      | Some (HashValue h, t) \<Rightarrow>
          if map_of h field = None then (Inr 0, ks)
          else if AList.delete field h = [] then (Inr 1, ks(key := None))
          else (Inr 1, ks(key \<mapsto> (HashValue (AList.delete field h), t))))"

definition redis_hget :: "jsstring \<Rightarrow> jsstring \<Rightarrow> keyspace \<Rightarrow> (error + jsstring option) \<times> keyspace" where
  "redis_hget key field ks =
     (case ks key of
        None \<Rightarrow> (Inr None, ks)
      | Some (StringValue _, _) \<Rightarrow> (Inl WRONGTYPE, ks)
      | Some (HashValue h, _) \<Rightarrow> (Inr (map_of h field), ks))"

text \<open>The client library answers \<open>null\<close> for a hash without fields.\<close>

definition redis_hgetall ::
  "jsstring \<Rightarrow> keyspace \<Rightarrow> (error + (jsstring \<times> jsstring) list option) \<times> keyspace" where
  "redis_hgetall key ks =
     (case ks key of
        None \<Rightarrow> (Inr None, ks)
      | Some (StringValue _, _) \<Rightarrow> (Inl WRONGTYPE, ks)
      | Some (HashValue h, _) \<Rightarrow> (Inr (if h = [] then None else Some h), ks))"

text \<open>
  The number a field of a hash counts: 0 when the field is absent, none when its value
  is not an integer.
\<close>

definition counter_value :: "(jsstring \<times> jsstring) list \<Rightarrow> jsstring \<Rightarrow> int option" where
  "counter_value h field = (case map_of h field of None \<Rightarrow> Some 0 | Some v \<Rightarrow> string2ll v)"

definition hincrby_fields ::
  "jsstring \<Rightarrow> jsstring \<Rightarrow> int \<Rightarrow> (jsstring \<times> jsstring) list \<Rightarrow> int option \<Rightarrow> keyspace
     \<Rightarrow> (error + int) \<times> keyspace" where
  "hincrby_fields key field increment h t ks =
     (case counter_value h field of
        None \<Rightarrow> (Inl (ReplyError ''ERR hash value is not an integer''), ks)
      | Some old \<Rightarrow>
          if old + increment < - (2 ^ 63) \<or> 2 ^ 63 - 1 < old + increment
          then (Inl (ReplyError ''ERR increment or decrement would overflow''), ks)
          else (Inr (old + increment),
                ks(key \<mapsto> (HashValue (AList.update field (show_int (old + increment)) h), t))))"

definition redis_hincrby :: "jsstring \<Rightarrow> jsstring \<Rightarrow> int \<Rightarrow> keyspace \<Rightarrow> (error + int) \<times> keyspace" where
  "redis_hincrby key field increment ks =
     (case ks key of
        None \<Rightarrow> hincrby_fields key field increment [] None ks
      | Some (StringValue _, _) \<Rightarrow> (Inl WRONGTYPE, ks)
      | Some (HashValue h, t) \<Rightarrow> hincrby_fields key field increment h t ks)"

definition redis_hset :: "jsstring \<Rightarrow> jsstring \<Rightarrow> jsstring \<Rightarrow> keyspace \<Rightarrow> (error + int) \<times> keyspace" where
  "redis_hset key field v ks =
     (case ks key of
        None \<Rightarrow> (Inr 1, ks(key \<mapsto> (HashValue [(field, v)], None)))
      | Some (StringValue _, _) \<Rightarrow> (Inl WRONGTYPE, ks)
      | Some (HashValue h, t) \<Rightarrow>
          (Inr (if map_of h field = None then 1 else 0),
           ks(key \<mapsto> (HashValue (AList.update field v h), t))))"

definition redis_set :: "jsstring \<Rightarrow> jsstring \<Rightarrow> keyspace \<Rightarrow> (error + unit) \<times> keyspace" where
  "redis_set key v ks = (Inr (), ks(key \<mapsto> (StringValue v, None)))"

text \<open>A \<open>null\<close> field name, as the client library treats it.\<close>

definition INVALID_ARGUMENT :: error where
  "INVALID_ARGUMENT = ReplyError ''The command contains a invalid argument type of null''"

definition redis_hincrby_arg ::
  "null_argument \<Rightarrow> jsstring \<Rightarrow> jsstring option \<Rightarrow> int \<Rightarrow> keyspace \<Rightarrow> (error + int) \<times> keyspace" where
  "redis_hincrby_arg policy key field increment ks =
     (case field of
        Some f \<Rightarrow> redis_hincrby key f increment ks
      | None \<Rightarrow>
          (case policy of
             Refused \<Rightarrow> (Inl INVALID_ARGUMENT, ks)
           | Stringified \<Rightarrow> redis_hincrby key (js ''null'') increment ks))"

text \<open>
  A batch is a pipeline: its commands run one after the other, each with its own reply,
  and a command that fails leaves the others in effect.
\<close>

fun redis_batch ::
  "null_argument \<Rightarrow> batch_command list \<Rightarrow> keyspace \<Rightarrow> (error + int) list \<times> keyspace" where
  "redis_batch policy [] ks = ([], ks)"
| "redis_batch policy (BatchHincrby key field increment # cs) ks =
     (case redis_hincrby_arg policy key field increment ks of
        (r, ks') \<Rightarrow> (case redis_batch policy cs ks' of (rs, ks'') \<Rightarrow> (r # rs, ks'')))"
| "redis_batch policy (BatchHset key field v # cs) ks =
     (case redis_hset key field v ks of
        (r, ks') \<Rightarrow> (case redis_batch policy cs ks' of (rs, ks'') \<Rightarrow> (r # rs, ks'')))"

subsection \<open>The client on a connection\<close>

text \<open>A call on connection \<open>c\<close>: it is logged and runs on the database selected there.\<close>

definition call ::
  "connection \<Rightarrow> request \<Rightarrow> (keyspace \<Rightarrow> 'a \<times> keyspace) \<Rightarrow> redis \<Rightarrow> 'a \<times> redis" where
  "call c rq f w =
     (case f (databases w (selected w c)) of
        (r, ks') \<Rightarrow>
          (r, w\<lparr>databases := (databases w)(selected w c := ks'),
                calls := calls w @ [(c, rq)]\<rparr>))"

definition node_redis :: "connection \<Rightarrow> redis RedisClient" where
  "node_redis c =
     \<lparr>ready = (\<lambda>w. is_ready w c),
      del = (\<lambda>keys. call c (Del keys) (redis_del keys)),
      execBatch = (\<lambda>cs w. call c (ExecBatch cs)
                     (\<lambda>ks. case redis_batch (null_argument w) cs ks of (rs, ks') \<Rightarrow> (Inr rs, ks')) w),
      exists = (\<lambda>key. call c (Exists key) (redis_exists key)),
      expire = (\<lambda>key seconds. call c (Expire key seconds) (redis_expire key seconds)),
      hdel = (\<lambda>key field. call c (Hdel key field) (redis_hdel key field)),
      hget = (\<lambda>key field. call c (Hget key field) (redis_hget key field)),
      hgetall = (\<lambda>key. call c (Hgetall key) (redis_hgetall key)),
      hincrby = (\<lambda>key field increment w.
                   call c (Hincrby key field increment)
                     (redis_hincrby_arg (null_argument w) key field increment) w),
      hset = (\<lambda>key field v. call c (Hset key field v) (redis_hset key field v)),
      select = (\<lambda>n w. (Inr (), w\<lparr>selected := (selected w)(c := n),
                                  calls := calls w @ [(c, Select n)]\<rparr>)),
      set_cmd = (\<lambda>key v. call c (Set key v) (redis_set key v))\<rparr>"

text \<open>The manager the constructor builds on the two connections of this store.\<close>

definition manager :: "env \<Rightarrow> redis RedisManager" where
  "manager e = constructor e (node_redis Ops) (node_redis Metrics)"

subsection \<open>Reading the store\<close>

text \<open>
  The count a field of a hash holds on a database: 0 when the key or the field is
  absent, none when the key holds a string or the value is not an integer.
\<close>

definition keyspace_counter :: "keyspace \<Rightarrow> jsstring \<Rightarrow> jsstring \<Rightarrow> int option" where
  "keyspace_counter ks key field =
     (case ks key of
        None \<Rightarrow> Some 0
      | Some (StringValue _, _) \<Rightarrow> None
      | Some (HashValue h, _) \<Rightarrow> counter_value h field)"

text \<open>The same on the metrics database.\<close>

definition counter :: "redis \<Rightarrow> jsstring \<Rightarrow> jsstring \<Rightarrow> int option" where
  "counter w key field = keyspace_counter (databases w METRICS_DB) key field"

text \<open>A count that one increment or decrement keeps within 64 bits.\<close>

definition has_room :: "redis \<Rightarrow> jsstring \<Rightarrow> jsstring \<Rightarrow> bool" where
  "has_room w key field =
     (case counter w key field of
        None \<Rightarrow> False
      | Some n \<Rightarrow> - (2 ^ 63) < n \<and> n < 2 ^ 63 - 1)"

text \<open>The time to live of a key of the cache, on the database of the cache connection.\<close>

definition time_to_live :: "redis \<Rightarrow> jsstring \<Rightarrow> int option" where
  "time_to_live w key =
     (case databases w (selected w Ops) key of None \<Rightarrow> None | Some (_, t) \<Rightarrow> t)"

definition cache_exists :: "redis \<Rightarrow> jsstring \<Rightarrow> bool" where
  "cache_exists w key \<longleftrightarrow> databases w (selected w Ops) key \<noteq> None"

text \<open>The key is free or holds a hash on the database of the cache connection.\<close>

definition cache_key_usable :: "redis \<Rightarrow> jsstring \<Rightarrow> bool" where
  "cache_key_usable w key =
     (case databases w (selected w Ops) key of
        Some (StringValue _, _) \<Rightarrow> False
      | _ \<Rightarrow> True)"

text \<open>The text cached for a url under a key, on the database of the cache connection.\<close>

definition cached_text :: "redis \<Rightarrow> jsstring \<Rightarrow> jsstring \<Rightarrow> jsstring option" where
  "cached_text w key url =
     (case databases w (selected w Ops) key of
        Some (HashValue h, _) \<Rightarrow> map_of h url
      | _ \<Rightarrow> None)"

text \<open>
  The metrics connection is ready, and it is on the metrics database whenever the
  set-up is memoized, which is what the set-up leaves behind.
\<close>

definition metrics_available :: "redis state \<Rightarrow> bool" where
  "metrics_available s \<longleftrightarrow>
     is_ready (world s) Metrics \<and>
     (setupMetricsClientPromise s \<noteq> None \<longrightarrow> selected (world s) Metrics = METRICS_DB)"

text \<open>The state a successful set-up leaves, or the state itself when it is memoized.\<close>

definition after_setup :: "redis state \<Rightarrow> redis state" where
  "after_setup s =
     (if setupMetricsClientPromise s \<noteq> None then s
      else
        \<lparr>setupMetricsClientPromise = Some (),
         world = (world s)
           \<lparr>databases := (databases (world s))
              (METRICS_DB := (databases (world s) METRICS_DB)
                 (js ''health'' \<mapsto> (StringValue (js ''health''), None))),
            selected := (selected (world s))(Metrics := METRICS_DB),
            calls := calls (world s) @
              [(Metrics, Select METRICS_DB), (Metrics, Set (js ''health'') (js ''health''))]\<rparr>\<rparr>)"

text \<open>
  What \<open>recordUpdate\<close> is to do, as the specification words it: add one to the active
  and to the succeeded count of the current label on the current deployment, and take
  one from the active count of the previous label on the previous deployment when a
  previous key and a previous label are both given (and not empty). Each entry is a
  deployment key, a field and the amount to add.
\<close>

definition recorded_fields ::
  "jsstring \<Rightarrow> jsstring \<Rightarrow> jsstring option \<Rightarrow> jsstring option \<Rightarrow> (jsstring \<times> jsstring \<times> int) list" where
  "recorded_fields currentKey currentLabel previousKey previousLabel =
     [(currentKey, currentLabel @ js '':Active'', 1),
      (currentKey, currentLabel @ js '':DeploymentSucceeded'', 1)]
     @ (case (previousKey, previousLabel) of
          (Some pk, Some pl) \<Rightarrow>
            if pk \<noteq> [] \<and> pl \<noteq> [] then [(pk, pl @ js '':Active'', - 1)] else []
        | _ \<Rightarrow> [])"

text \<open>The sum of the amounts for one field of one deployment.\<close>

definition recorded_change ::
  "jsstring \<Rightarrow> jsstring \<Rightarrow> jsstring option \<Rightarrow> jsstring option \<Rightarrow> jsstring \<Rightarrow> jsstring \<Rightarrow> int" where
  "recorded_change currentKey currentLabel previousKey previousLabel deploymentKey field =
     sum_list (map (\<lambda>(k, f, d). if k = deploymentKey \<and> f = field then d else 0)
                 (recorded_fields currentKey currentLabel previousKey previousLabel))"

subsection \<open>Example configurations and states\<close>

definition configured :: env where
  "configured =
     \<lparr>REDIS_HOST = Some (js ''redis''), REDIS_PORT = Some (js ''6379''),
      REDIS_KEY = None, REDIS_TLS = None\<rparr>"


definition empty_store :: "null_argument \<Rightarrow> redis" where
  "empty_store policy =
     \<lparr>databases = (\<lambda>_. Map.empty), selected = (\<lambda>_. 0), is_ready = (\<lambda>_. True),
      null_argument = policy, calls = []\<rparr>"

definition initial :: "null_argument \<Rightarrow> redis state" where
  "initial policy = \<lparr>setupMetricsClientPromise = None, world = empty_store policy\<rparr>"

text \<open>A store with one hash on database \<open>d\<close>, the set-up done.\<close>

definition store_with :: "nat \<Rightarrow> jsstring \<Rightarrow> (jsstring \<times> jsstring) list \<Rightarrow> redis state" where
  "store_with d key h =
     \<lparr>setupMetricsClientPromise = Some (),
      world = \<lparr>databases = (\<lambda>_. Map.empty)(d := [key \<mapsto> (HashValue h, None)]),
               selected = (\<lambda>_. 0)(Metrics := METRICS_DB), is_ready = (\<lambda>_. True),
               null_argument = Refused, calls = []\<rparr>\<rparr>"




text \<open>
  A codec for responses whose body is an integer, enough to run the cache: the text is
  the two numbers, and only a text it wrote is read back.
\<close>

definition pair_codec :: "int CacheableResponse JSON" where
  "pair_codec =
     \<lparr>stringify = (\<lambda>r. Inr (js ''['' @ show_int (statusCode r) @ js '','' @ show_int (body r) @ js '']'')),
      parse = (\<lambda>t. if t = js ''[200,7]'' then Inr \<lparr>statusCode = 200, body = 7\<rparr>
                    else if t = js ''[404,0]'' then Inr \<lparr>statusCode = 404, body = 0\<rparr>
                    else Inl SyntaxError)\<rparr>"





text \<open>Two writes to the cache under one key, one after the other.\<close>

definition first_write :: "redis state" where
  "first_write =
     snd (setCachedResponse pair_codec (manager configured) (js ''v1'') (js ''https://host/updateCheck'')
            \<lparr>statusCode = 200, body = 7\<rparr> (initial Refused))"

definition second_write :: "redis state" where
  "second_write =
     snd (setCachedResponse pair_codec (manager configured) (js ''v1'') (js ''https://host/other'')
            \<lparr>statusCode = 404, body = 0\<rparr> first_write)"

section \<open>The set-up of the metrics connection, call by call\<close>

text \<open>
  \<open>ensureMetricsSetup\<close> once more, for calls that overlap: a call returns a promise at
  once, and the chain behind the promise (select the database, write the health key)
  settles later, after any number of other calls. A promise is its index in the list of
  the attempts started so far; \<open>memo\<close> is the field \<open>_setupMetricsClientPromise\<close>.
\<close>

datatype promise_state = Pending | Fulfilled | Rejected

record setup_state =
  enabled :: bool
  memo :: "nat option"
  attempts :: "promise_state list"

datatype returned = Memoized nat | Started nat | Refusal error

text \<open>One call, with the \<open>ready\<close> flag of the metrics handle at that moment.\<close>

definition ensureMetricsSetup_call :: "bool \<Rightarrow> setup_state \<Rightarrow> returned \<times> setup_state" where
  "ensureMetricsSetup_call metricsClient_ready t =
     (if \<not> enabled t then (Refusal (Error ''Redis manager is not enabled''), t)
      else case memo t of
        Some p \<Rightarrow> (Memoized p, t)
      | None \<Rightarrow>
          if \<not> metricsClient_ready
          then (Refusal (Error ''Redis metrics client is not ready''), t)
          else (Started (length (attempts t)),
                t\<lparr>memo := Some (length (attempts t)), attempts := attempts t @ [Pending]\<rparr>))"

text \<open>
  The chain of attempt \<open>p\<close> settles: fulfilled when both commands succeeded; otherwise
  the \<open>catch\<close> handler clears the field and rethrows. A promise settles once.
\<close>

definition settle :: "nat \<Rightarrow> bool \<Rightarrow> setup_state \<Rightarrow> setup_state" where
  "settle p succeeded t =
     (if p < length (attempts t) \<and> attempts t ! p = Pending
      then if succeeded then t\<lparr>attempts := (attempts t)[p := Fulfilled]\<rparr>
           else t\<lparr>memo := None, attempts := (attempts t)[p := Rejected]\<rparr>
      else t)"

datatype event = Call bool | Settle nat bool

fun step :: "setup_state \<Rightarrow> event \<Rightarrow> setup_state" where
  "step t (Call metricsClient_ready) = snd (ensureMetricsSetup_call metricsClient_ready t)"
| "step t (Settle p succeeded) = settle p succeeded t"

definition run :: "bool \<Rightarrow> event list \<Rightarrow> setup_state" where
  "run is_configured events = foldl step \<lparr>enabled = is_configured, memo = None, attempts = []\<rparr> events"

definition in_flight :: "setup_state \<Rightarrow> nat" where
  "in_flight t = length (filter (\<lambda>x. x = Pending) (attempts t))"

definition succeeded_setups :: "setup_state \<Rightarrow> nat" where
  "succeeded_setups t = length (filter (\<lambda>x. x = Fulfilled) (attempts t))"

section \<open>Failures inside a call\<close>



text \<open>
  What holds after any calls and settlements: a promise that is pending or fulfilled is
  the memoized one, the memoized promise is one that is pending or fulfilled, and no
  attempt was started by a manager that is not enabled.
\<close>

definition memo_invariant :: "setup_state \<Rightarrow> bool" where
  "memo_invariant t \<longleftrightarrow>
     (\<forall>p < length (attempts t). attempts t ! p \<noteq> Rejected \<longrightarrow> memo t = Some p)
     \<and> (\<forall>p. memo t = Some p \<longrightarrow> p < length (attempts t) \<and> attempts t ! p \<noteq> Rejected)
     \<and> (attempts t \<noteq> [] \<longrightarrow> enabled t)"

section \<open>String literals\<close>

lemma unat_codeUnit: "unat (codeUnit c) = of_char c"
proof -
  have "(of_char c :: nat) < 65536" using nat_of_char_less_256 [of c] by linarith
  then show ?thesis by (simp add: codeUnit_def unat_of_nat)
qed

lemma codeUnit_eq_iff [simp]: "codeUnit a = codeUnit b \<longleftrightarrow> a = b"
proof
  assume "codeUnit a = codeUnit b"
  then have "unat (codeUnit a) = unat (codeUnit b)" by simp
  then show "a = b" by (simp add: unat_codeUnit)
qed simp

lemma js_eq_iff [simp]: "js a = js b \<longleftrightarrow> a = b"
  by (simp add: js_def inj_map_eq_map inj_def)

lemma js_simps: "js [] = []" "js (c # s) = codeUnit c # js s"
  by (simp_all add: js_def)

lemma js_append [simp]: "js a @ js b = js (a @ b)" "js a @ js b @ k = js (a @ b) @ k"
  by (simp_all add: js_def)

lemma js_empty_iff [simp]: "js s = [] \<longleftrightarrow> s = []" "[] = js s \<longleftrightarrow> s = []"
  by (auto simp: js_def)

section \<open>Promise chains never reject past a final catch\<close>


lemma catch_p_unit: "fst (catch_p p (\<lambda>_. q ()) s) = Inr ()"
  by (simp add: catch_p_def q_def split: prod.splits sum.splits)



lemma then_p_resolved: "p s = (Inr v, s') \<Longrightarrow> then_p p f s = f v s'"
  by (simp add: then_p_def)






lemma incrementLabelStatusCount_resolves:
  "fst (incrementLabelStatusCount this deploymentKey label status s) = Inr ()"
  unfolding incrementLabelStatusCount_def Let_def by (rule catch_p_unit)

lemma recordUpdate_resolves:
  "fst (recordUpdate this deploymentKey label previousKey previousLabel s) = Inr ()"
  unfolding recordUpdate_def by (rule catch_p_unit)










lemma ensureMetricsSetup_disabled:
  "\<not> isEnabled this \<Longrightarrow>
     ensureMetricsSetup this s = (Inl (Error ''Redis manager is not enabled''), s)"
  by (simp add: ensureMetricsSetup_def q_reject_def)


lemmas chain_simps = then_p_def catch_p_def q_def q_reject_def

lemma isEnabled_constructor:
  "isEnabled (constructor e ops metrics) \<longleftrightarrow> truthy (REDIS_HOST e) \<and> truthy (REDIS_PORT e)"
  by (simp add: isEnabled_def constructor_def)












section \<open>Decimal integers\<close>

lemma unat_digit: "d < 10 \<Longrightarrow> unat (of_nat (48 + d) :: codeunit) = 48 + d"
  by (simp add: unat_of_nat del: of_nat_add)

lemma digitValue_digit: "d < 10 \<Longrightarrow> digitValue (of_nat (48 + d)) = d"
  by (simp add: digitValue_def Let_def unat_digit del: of_nat_add)

lemma isDigitOfBase_digit: "d < 10 \<Longrightarrow> isDigitOfBase 10 (of_nat (48 + d))"
  by (simp add: isDigitOfBase_def digitValue_digit del: of_nat_add)

lemma digitValue_literal: "digitValue (codeUnit c) =
     (let n = of_char c in
      if 48 \<le> n \<and> n \<le> 57 then n - 48
      else if 97 \<le> n \<and> n \<le> 102 then n - 87
      else if 65 \<le> n \<and> n \<le> 70 then n - 55
      else 36)"
  by (simp add: digitValue_def unat_codeUnit)

lemma digitsValue_snoc: "digitsValue b (ds @ [c]) = b * digitsValue b ds + digitValue c"
  by (simp add: digitsValue_def)

lemma show_nat_small: "n < 10 \<Longrightarrow> show_nat n = [of_nat (48 + n)]"
  by (simp add: show_nat.simps [of n] del: of_nat_add)

lemma show_nat_large:
  "\<not> n < 10 \<Longrightarrow> show_nat n = show_nat (n div 10) @ [of_nat (48 + n mod 10)]"
  by (simp add: show_nat.simps [of n] del: of_nat_add)

lemma show_nat_0: "show_nat 0 = js ''0''"
  by (simp add: show_nat_small js_def codeUnit_def)

lemma show_nat_nonempty: "show_nat n \<noteq> []"
  by (cases "n < 10") (simp_all add: show_nat_small show_nat_large del: of_nat_add)

lemma show_nat_digits: "list_all (isDigitOfBase 10) (show_nat n)"
proof (induction n rule: show_nat.induct)
  case (1 n)
  show ?case
  proof (cases "n < 10")
    case True
    then show ?thesis by (simp add: show_nat_small isDigitOfBase_digit del: of_nat_add)
  next
    case False
    with "1" show ?thesis by (simp add: show_nat_large isDigitOfBase_digit del: of_nat_add)
  qed
qed

lemma digitsValue_show_nat: "digitsValue 10 (show_nat n) = n"
proof (induction n rule: show_nat.induct)
  case (1 n)
  show ?case
  proof (cases "n < 10")
    case True
    then show ?thesis
      by (simp add: show_nat_small digitsValue_def digitValue_digit del: of_nat_add)
  next
    case False
    with "1" show ?thesis
      by (simp add: show_nat_large digitsValue_snoc digitValue_digit del: of_nat_add)
  qed
qed

lemma hd_show_nat: "0 < n \<Longrightarrow> digitValue (hd (show_nat n)) \<noteq> 0"
proof (induction n rule: show_nat.induct)
  case (1 n)
  show ?case
  proof (cases "n < 10")
    case True
    with "1.prems" show ?thesis by (simp add: show_nat_small digitValue_digit del: of_nat_add)
  next
    case False
    then have "0 < n div 10" by simp
    with "1.IH" False have "digitValue (hd (show_nat (n div 10))) \<noteq> 0" by simp
    with False show ?thesis by (simp add: show_nat_large show_nat_nonempty del: of_nat_add)
  qed
qed

lemma hd_show_nat_not_zero: "0 < n \<Longrightarrow> hd (show_nat n) \<noteq> codeUnit CHR ''0''"
  using hd_show_nat [of n] by (auto simp: digitValue_literal)

lemma hd_show_nat_digit: "isDigitOfBase 10 (hd (show_nat n))"
  using show_nat_digits [of n] show_nat_nonempty [of n]
  by (cases "show_nat n") simp_all

lemma digit_not_sign:
  "isDigitOfBase 10 c \<Longrightarrow>
     c \<noteq> codeUnit CHR ''-'' \<and> c \<noteq> codeUnit CHR ''+'' \<and> c \<noteq> codeUnit CHR ''.''
     \<and> c \<noteq> codeUnit CHR ''I''"
  by (auto simp: isDigitOfBase_def digitValue_literal)

lemma string2ll_show_nat:
  assumes "int n \<le> 2 ^ 63 - 1"
  shows "string2ll (show_nat n) = Some (int n)"
proof (cases "n = 0")
  case True
  then show ?thesis by (simp add: show_nat_0 string2ll_def)
next
  case False
  then have z: "hd (show_nat n) \<noteq> codeUnit CHR ''0''" by (simp add: hd_show_nat_not_zero)
  then have "show_nat n \<noteq> js ''0''" by (auto simp: js_simps)
  moreover have "hd (show_nat n) \<noteq> codeUnit CHR ''-''"
    using hd_show_nat_digit [of n] digit_not_sign by blast
  ultimately show ?thesis
    using assms z
    by (simp add: string2ll_def show_nat_nonempty show_nat_digits digitsValue_show_nat)
qed

lemma string2ll_show_int:
  assumes "- (2 ^ 63) \<le> i" and "i \<le> 2 ^ 63 - 1"
  shows "string2ll (show_int i) = Some i"
proof (cases "i < 0")
  case False
  with assms string2ll_show_nat [of "nat i"] show ?thesis by (simp add: show_int_def)
next
  case True
  then have pos: "0 < nat (- i)" by simp
  have "codeUnit CHR ''-'' # show_nat (nat (- i)) \<noteq> js ''0''" by (simp add: js_simps)
  then show ?thesis
    using True assms hd_show_nat_not_zero [OF pos]
    by (simp add: string2ll_def show_int_def show_nat_nonempty show_nat_digits
        digitsValue_show_nat)
qed

section \<open>The binary exponent and the rounding of a literal's value\<close>

lemma quotient_of_pos:
  assumes "0 < x" and "quotient_of x = (a, b)"
  shows "0 < a" "0 < b" "x = of_int a / of_int b"
proof -
  show b: "0 < b" using assms(2) quotient_of_denom_pos by blast
  show x: "x = of_int a / of_int b" using assms(2) by (rule quotient_of_div)
  from assms(1) x b show "0 < a"
    by (simp add: zero_less_divide_iff)
qed

lemma bitlen_rat_bounds:
  assumes "0 < a"
  shows "(2::rat) powi (bitlen a - 1) \<le> of_int a" and "of_int a < (2::rat) powi bitlen a"
proof -
  have l: "1 \<le> bitlen a"
    using assms bitlen_eq_zero_iff [of a] bitlen_nonneg [of a] by auto
  have "2 ^ nat (bitlen a - 1) \<le> a" "a < 2 ^ nat (bitlen a)"
    using bitlen_bounds [OF assms] by simp_all
  then have "(of_int (2 ^ nat (bitlen a - 1)) :: rat) \<le> of_int a"
    "(of_int a :: rat) < of_int (2 ^ nat (bitlen a))"
    by (simp_all only: of_int_le_iff of_int_less_iff)
  then show "(2::rat) powi (bitlen a - 1) \<le> of_int a" "of_int a < (2::rat) powi bitlen a"
    using l by (simp_all add: power_int_nonneg_exp)
qed

lemma floorLog2_bounds:
  assumes "0 < x"
  shows "2 powi floorLog2 x \<le> x" and "x < 2 powi (floorLog2 x + 1)"
proof -
  obtain a b where q: "quotient_of x = (a, b)" by (cases "quotient_of x")
  note ab = quotient_of_pos [OF assms q]
  define la where "la = bitlen a"
  define lb where "lb = bitlen b"
  note a = bitlen_rat_bounds [OF ab(1), folded la_def]
  note b = bitlen_rat_bounds [OF ab(2), folded lb_def]
  have bpos: "(0::rat) < of_int b" using ab(2) by simp
  have up: "x < 2 powi (la - lb + 1)"
  proof -
    have "x * of_int b = of_int a" using ab(3) bpos by simp
    also have "\<dots> < 2 powi la" by (rule a(2))
    also have "\<dots> = 2 powi (la - lb + 1) * 2 powi (lb - 1)"
      by (simp add: power_int_add [symmetric])
    also have "\<dots> \<le> 2 powi (la - lb + 1) * of_int b"
      using b(1) by (simp add: mult_left_mono)
    finally show ?thesis using bpos by simp
  qed
  have low: "2 powi (la - lb - 1) \<le> x"
  proof -
    have "(2::rat) powi (la - lb - 1) * of_int b \<le> 2 powi (la - lb - 1) * 2 powi lb"
      using b(2) by (simp add: mult_left_mono)
    also have "\<dots> = 2 powi (la - 1)" by (simp add: power_int_add [symmetric])
    also have "\<dots> \<le> of_int a" by (rule a(1))
    also have "\<dots> = x * of_int b" using ab(3) bpos by simp
    finally show ?thesis using bpos by simp
  qed
  have f: "floorLog2 x = (if 2 powi (la - lb) \<le> x then la - lb else la - lb - 1)"
    by (simp add: floorLog2_def q la_def lb_def Let_def)
  show "2 powi floorLog2 x \<le> x" using low by (simp add: f)
  show "x < 2 powi (floorLog2 x + 1)" using up by (auto simp: f not_le)
qed

lemma floorLog2_eqI:
  assumes "2 powi e \<le> x" and "x < 2 powi (e + 1)"
  shows "floorLog2 x = e"
proof -
  have pos: "0 < x" using assms(1) by (rule less_le_trans [rotated]) simp
  note f = floorLog2_bounds [OF pos]
  have "(2::rat) powi e < 2 powi (floorLog2 x + 1)" using assms(1) f(2) by simp
  then have 1: "e < floorLog2 x + 1"
    using power_int_increasing [of "floorLog2 x + 1" e "2::rat"]
    by (cases "e < floorLog2 x + 1") auto
  have "(2::rat) powi floorLog2 x < 2 powi (e + 1)" using assms(2) f(1) by simp
  then have 2: "floorLog2 x < e + 1"
    using power_int_increasing [of "e + 1" "floorLog2 x" "2::rat"]
    by (cases "floorLog2 x < e + 1") auto
  from 1 2 show ?thesis by simp
qed

lemma roundTiesToEven_of_int: "roundTiesToEven (of_int n) = n"
  by (simp add: roundTiesToEven_def)

lemma roundTiesToEven_eqI:
  assumes "\<bar>x - of_int n\<bar> < 1 / 2"
  shows "roundTiesToEven x = n"
proof -
  from assms have "of_int n - 1 / 2 < x" "x < of_int n + 1 / 2" by linarith+
  then consider "\<lfloor>x\<rfloor> = n" "x - of_int n < 1 / 2"
    | "\<lfloor>x\<rfloor> = n - 1" "1 / 2 < x - of_int (n - 1)"
    by (cases "of_int n \<le> x") (auto simp: floor_eq_iff)
  then show ?thesis
    by cases (simp_all add: roundTiesToEven_def Let_def)
qed

lemma roundTiesToEven_tie:
  assumes "x = of_int n + 1 / 2"
  shows "roundTiesToEven x = (if even n then n else n + 1)"
proof -
  have "\<lfloor>x\<rfloor> = n" by (simp add: assms floor_eq_iff)
  then show ?thesis by (simp add: roundTiesToEven_def Let_def assms)
qed

lemma roundTiesToEven_mono:
  assumes "of_int n \<le> x"
  shows "n \<le> roundTiesToEven x"
proof -
  from assms have "n \<le> \<lfloor>x\<rfloor>" by (simp add: le_floor_iff)
  then show ?thesis by (simp add: roundTiesToEven_def Let_def)
qed

lemma RoundMVResult_normal:
  assumes "2 powi e \<le> x" and "x < 2 powi (e + 1)" and "- 1022 \<le> e"
  shows "RoundMVResult x =
           (let y = of_int (roundTiesToEven (x / 2 powi (e - 52))) * 2 powi (e - 52)
            in if 2 ^ 1024 \<le> y then PosInfinity else Finite y)"
proof -
  have pos: "0 < x" using assms(1) by (rule less_le_trans [rotated]) simp
  have "floorLog2 x = e" using assms(1,2) by (rule floorLog2_eqI)
  with pos assms(3) show ?thesis by (simp add: RoundMVResult_def Let_def max_def)
qed

text \<open>A value that is a double is its own double.\<close>

lemma RoundMVResult_exact:
  assumes "2 powi e \<le> x" and "x < 2 powi (e + 1)" and "- 1022 \<le> e" and "e \<le> 1023"
    and "x / 2 powi (e - 52) = of_int m"
  shows "RoundMVResult x = Finite x"
proof -
  from assms(5) have y: "of_int m * (2::rat) powi (e - 52) = x" by (simp add: field_simps)
  have "(2::rat) powi (e + 1) \<le> 2 powi 1024"
    using assms(4) by (intro power_int_increasing) simp_all
  with assms(2) have "x < 2 ^ 1024" by simp
  then show ?thesis
    by (simp add: RoundMVResult_normal [OF assms(1-3)] assms(5) roundTiesToEven_of_int y)
qed

text \<open>Every integer up to \<open>2 ^ 53\<close> is a double.\<close>

lemma RoundMVResult_of_int:
  assumes "0 \<le> n" and "n \<le> 2 ^ 53"
  shows "RoundMVResult (of_int n) = Finite (of_int n)"
proof (cases "n = 0")
  case True
  then show ?thesis by (simp add: RoundMVResult_def)
next
  case False
  with assms have pos: "(0::rat) < of_int n" by simp
  define e where "e = floorLog2 (of_int n)"
  note f = floorLog2_bounds [OF pos, folded e_def]
  have "(1::rat) \<le> of_int n"
    using False assms(1) by (simp add: of_int_1_le_iff [symmetric] del: of_int_1_le_iff)
  then have "(2::rat) powi 0 < 2 powi (e + 1)" using f(2) by simp
  then have e0: "0 \<le> e"
    using power_int_increasing [of "e + 1" 0 "2::rat"] by (cases "0 < e + 1") auto
  have "(of_int n :: rat) \<le> of_int (2 ^ 53)" using assms(2) by (simp only: of_int_le_iff)
  then have "(2::rat) powi e < 2 powi 54" using f(1) by simp
  then have e53: "e \<le> 53"
    using power_int_increasing [of 54 e "2::rat"] by (cases "e < 54") auto
  have "\<exists>m. of_int n / (2::rat) powi (e - 52) = of_int m"
  proof (cases "e \<le> 52")
    case True
    then have "(2::rat) powi (e - 52) = 1 / 2 ^ nat (52 - e)"
      using power_int_minus_divide [of "2::rat" "52 - e"] by (simp add: power_int_nonneg_exp)
    then have "of_int n / (2::rat) powi (e - 52) = of_int (n * 2 ^ nat (52 - e))" by simp
    then show ?thesis ..
  next
    case False
    with e53 have e: "e = 53" by simp
    with f(1) have "(of_int (2 ^ 53) :: rat) \<le> of_int n" by simp
    then have "2 ^ 53 \<le> n" by (simp only: of_int_le_iff)
    with assms(2) have "n = 2 ^ 53" by simp
    then have "of_int n / (2::rat) powi (e - 52) = of_int (2 ^ 52)" by (simp add: e)
    then show ?thesis ..
  qed
  then obtain m where m: "of_int n / (2::rat) powi (e - 52) = of_int m" ..
  have "- 1022 \<le> e" "e \<le> 1023" using e0 e53 by simp_all
  with f m show ?thesis unfolding e_def by (intro RoundMVResult_exact)
qed

text \<open>Too large a value is the infinity, too small a one the zero.\<close>

lemma RoundMVResult_overflow:
  assumes "2 ^ 1024 \<le> x"
  shows "RoundMVResult x = PosInfinity"
proof -
  have pos: "0 < x" using assms by (rule less_le_trans [rotated]) simp
  define e where "e = floorLog2 x"
  note f = floorLog2_bounds [OF pos, folded e_def]
  have "(2::rat) powi 1024 < 2 powi (e + 1)" using assms f(2) by simp
  then have e: "1024 \<le> e"
    using power_int_increasing [of "e + 1" 1024 "2::rat"] by (cases "1024 < e + 1") auto
  have split: "of_int (2 ^ 52) * (2::rat) powi (e - 52) = 2 powi e"
    using power_int_add [of "2::rat" 52 "e - 52"] by simp
  with f(1) have "of_int (2 ^ 52) * (2::rat) powi (e - 52) \<le> x" by simp
  then have "of_int (2 ^ 52) \<le> x / 2 powi (e - 52)" by (simp add: pos_le_divide_eq)
  then have "2 ^ 52 \<le> roundTiesToEven (x / 2 powi (e - 52))" by (rule roundTiesToEven_mono)
  then have "(of_int (2 ^ 52) :: rat) \<le> of_int (roundTiesToEven (x / 2 powi (e - 52)))"
    by (simp only: of_int_le_iff)
  then have step: "of_int (2 ^ 52) * (2::rat) powi (e - 52)
      \<le> of_int (roundTiesToEven (x / 2 powi (e - 52))) * 2 powi (e - 52)"
    by (rule mult_right_mono) simp
  have "(2::rat) powi 1024 \<le> 2 powi e" using e by (intro power_int_increasing) simp_all
  also have "\<dots> = of_int (2 ^ 52) * (2::rat) powi (e - 52)" by (rule split [symmetric])
  also note step
  finally have "(2::rat) ^ 1024 \<le> of_int (roundTiesToEven (x / 2 powi (e - 52))) * 2 powi (e - 52)"
    by simp
  then show ?thesis
    using pos e by (simp add: RoundMVResult_def Let_def e_def [symmetric] max_def)
qed

lemma RoundMVResult_underflow:
  assumes "0 < x" and "x \<le> 2 powi (- 1075)"
  shows "RoundMVResult x = Finite 0"
proof -
  define e where "e = floorLog2 x"
  note f = floorLog2_bounds [OF assms(1), folded e_def]
  have "(2::rat) powi e \<le> 2 powi (- 1075)" using f(1) assms(2) by simp
  then have e: "e \<le> - 1075"
    using power_int_strict_increasing [of "- 1075" e "2::rat"] by (cases "e \<le> - 1075") auto
  have "x / 2 powi (- 1074) \<le> 2 powi (- 1075) / 2 powi (- 1074)"
    using assms(2) by (simp add: divide_right_mono)
  then have half: "x / 2 powi (- 1074) \<le> 1 / 2" by (simp add: power_int_diff [symmetric])
  have "0 < x / 2 powi (- 1074)" using assms(1) by simp
  with half have fl: "\<lfloor>x / 2 powi (- 1074)\<rfloor> = 0" by (simp add: floor_eq_iff)
  have "roundTiesToEven (x / 2 powi (- 1074)) = 0"
    using half by (simp add: roundTiesToEven_def Let_def fl del: power_int_numeral_neg_numeral)
  then show ?thesis
    using assms(1) e by (simp add: RoundMVResult_def Let_def e_def [symmetric] max_def)
qed

lemma RoundMVResult_not_NaN: "RoundMVResult x \<noteq> NaN"
  by (simp add: RoundMVResult_def Let_def)

lemma negate_NaN: "negate n = NaN \<longleftrightarrow> n = NaN"
  by (cases n) (simp_all add: negate_def)

section \<open>Decimal integers as numbers of the language\<close>

lemma digit_not_space: "isDigitOfBase 10 c \<Longrightarrow> \<not> isStrWhiteSpaceChar c"
  by (auto simp: isDigitOfBase_def digitValue_def isStrWhiteSpaceChar_def Let_def
      word_le_nat_alt split: if_splits)

lemma trimString_id:
  assumes "s \<noteq> []" "\<not> isStrWhiteSpaceChar (hd s)" "\<not> isStrWhiteSpaceChar (last s)"
  shows "trimString s = s"
proof -
  from assms have a: "dropWhile isStrWhiteSpaceChar s = s" by (cases s) simp_all
  from assms have "rev s \<noteq> []" "\<not> isStrWhiteSpaceChar (hd (rev s))" by (simp_all add: hd_rev)
  then have "dropWhile isStrWhiteSpaceChar (rev s) = rev s" by (cases "rev s") simp_all
  with a show ?thesis by (simp add: trimString_def)
qed

lemma last_show_nat_digit: "isDigitOfBase 10 (last (show_nat n))"
  using show_nat_digits [of n] show_nat_nonempty [of n]
  by (simp add: list_all_iff)

lemma strUnsignedDecimalLiteral_digits:
  assumes "ds \<noteq> []" "list_all (isDigitOfBase 10) ds"
  shows "strUnsignedDecimalLiteral ds = RoundMVResult (of_nat (digitsValue 10 ds))"
proof -
  from assms have "hd ds \<noteq> codeUnit CHR ''I''"
    using digit_not_sign [of "hd ds"] by (cases ds) simp_all
  with assms(1) have ni: "ds \<noteq> js ''Infinity''" by (auto simp: js_simps)
  from assms(2) have t: "takeWhile (isDigitOfBase 10) ds = ds" "dropWhile (isDigitOfBase 10) ds = []"
    by (simp_all add: list_all_iff)
  show ?thesis
    using ni assms(1) by (simp add: strUnsignedDecimalLiteral_def t Let_def exponentPart_def)
qed

lemma StringToNumber_show_nat: "StringToNumber (show_nat n) = RoundMVResult (of_nat n)"
proof -
  let ?s = "show_nat n"
  have trim: "trimString ?s = ?s"
    by (intro trimString_id show_nat_nonempty digit_not_space hd_show_nat_digit last_show_nat_digit)
  have nd: "nonDecimalIntegerLiteral ?s = None"
  proof (cases "n < 10")
    case True
    then show ?thesis by (simp add: show_nat_small nonDecimalIntegerLiteral_def del: of_nat_add)
  next
    case False
    then have "hd ?s \<noteq> codeUnit CHR ''0''" by (simp add: hd_show_nat_not_zero)
    then show ?thesis
      by (cases ?s) (simp_all add: nonDecimalIntegerLiteral_def split: list.splits)
  qed
  have sign: "hd ?s \<noteq> codeUnit CHR ''+''" "hd ?s \<noteq> codeUnit CHR ''-''"
    using hd_show_nat_digit [of n] digit_not_sign by blast+
  have "strDecimalLiteral ?s = strUnsignedDecimalLiteral ?s"
    using sign show_nat_nonempty [of n] by (cases ?s) (simp_all add: strDecimalLiteral_def)
  then show ?thesis
    by (simp add: StringToNumber_def trim nd show_nat_nonempty
        strUnsignedDecimalLiteral_digits show_nat_digits digitsValue_show_nat)
qed

text \<open>
  The decimal writing of an integer is read as the double nearest to the integer, which
  is the integer up to \<open>2 ^ 53\<close>.
\<close>

lemma StringToNumber_show_int:
  "StringToNumber (show_int i) =
     (if i < 0 then negate (RoundMVResult (of_int (- i))) else RoundMVResult (of_int i))"
proof (cases "i < 0")
  case False
  then show ?thesis by (simp add: show_int_def StringToNumber_show_nat)
next
  case True
  let ?ds = "show_nat (nat (- i))"
  let ?s = "codeUnit CHR ''-'' # ?ds"
  have "\<not> isStrWhiteSpaceChar (last ?s)"
    using last_show_nat_digit [of "nat (- i)"] digit_not_space show_nat_nonempty by simp
  moreover have "\<not> isStrWhiteSpaceChar (codeUnit CHR ''-'')"
    by (simp add: isStrWhiteSpaceChar_def codeUnit_def)
  ultimately have trim: "trimString ?s = ?s"
    by (intro trimString_id) simp_all
  have nd: "nonDecimalIntegerLiteral ?s = None"
    by (simp add: nonDecimalIntegerLiteral_def split: list.splits)
  have "strDecimalLiteral ?s = negate (RoundMVResult (of_nat (nat (- i))))"
    by (simp add: strDecimalLiteral_def strUnsignedDecimalLiteral_digits show_nat_nonempty
        show_nat_digits digitsValue_show_nat)
  with True show ?thesis
    by (simp add: show_int_def StringToNumber_def trim nd)
qed

lemma StringToNumber_safe_integer:
  assumes "\<bar>i\<bar> \<le> 2 ^ 53"
  shows "StringToNumber (show_int i) = Finite (of_int i)"
proof (cases "i < 0")
  case False
  with assms show ?thesis by (simp add: StringToNumber_show_int RoundMVResult_of_int)
next
  case True
  with assms have "RoundMVResult (of_int (- i)) = Finite (of_int (- i))"
    by (intro RoundMVResult_of_int) simp_all
  with True show ?thesis by (simp add: StringToNumber_show_int negate_def)
qed

lemma isNaN_show_int: "\<not> isNaN (show_int i)"
  by (simp add: isNaN_def StringToNumber_show_int RoundMVResult_not_NaN negate_NaN)

section \<open>The manager on the reference store\<close>

lemma manager_clients:
  assumes "isEnabled (manager e)"
  shows "opsClient (manager e) = Some (node_redis Ops)"
    and "metricsClient (manager e) = Some (node_redis Metrics)"
  using assms by (simp_all add: manager_def constructor_def isEnabled_def split: if_splits)

lemma manager_configured: "isEnabled (manager configured)"
  by (simp add: manager_def isEnabled_constructor configured_def truthy_def)

lemma ready_node_redis: "ready (node_redis c) w = is_ready w c"
  by (simp add: node_redis_def)

lemma safeCall_node_redis:
  "isEnabled this \<Longrightarrow> is_ready (world s) c \<Longrightarrow>
     safeCall this (Some (node_redis c)) m s = invoke (m (node_redis c)) s"
  by (simp add: safeCall_def ready_node_redis)

lemma ensureMetricsSetup_reference:
  assumes "isEnabled (manager e)"
  shows "ensureMetricsSetup (manager e) s =
           (if setupMetricsClientPromise s = None \<and> \<not> is_ready (world s) Metrics
            then (Inl (Error ''Redis metrics client is not ready''), s)
            else (Inr (), after_setup s))"
proof (cases "setupMetricsClientPromise s")
  case (Some u)
  with assms show ?thesis by (simp add: ensureMetricsSetup_def after_setup_def q_def)
next
  case None
  have sel: "invoke (select (node_redis Metrics) METRICS_DB) t
      = (Inr (), t\<lparr>world := (world t)\<lparr>selected := (selected (world t))(Metrics := METRICS_DB),
                                      calls := calls (world t) @ [(Metrics, Select METRICS_DB)]\<rparr>\<rparr>)"
    for t :: "redis state"
    by (simp add: invoke_def node_redis_def)
  have st: "invoke (set_cmd (node_redis Metrics) (js ''health'') (js ''health'')) t
      = (Inr (), t\<lparr>world := (world t)
            \<lparr>databases := (databases (world t))
               (selected (world t) Metrics := (databases (world t) (selected (world t) Metrics))
                  (js ''health'' \<mapsto> (StringValue (js ''health''), None))),
             calls := calls (world t) @ [(Metrics, Set (js ''health'') (js ''health''))]\<rparr>\<rparr>)"
    for t :: "redis state"
    by (simp add: invoke_def node_redis_def call_def redis_set_def)
  from assms None show ?thesis
    by (simp add: ensureMetricsSetup_def manager_clients ready_node_redis q_reject_def
        then_p_def catch_p_def q_def sel st after_setup_def)
qed

lemma ensureMetricsSetup_available:
  assumes "isEnabled (manager e)" and "metrics_available s"
  shows "ensureMetricsSetup (manager e) s = (Inr (), after_setup s)"
  using assms by (simp add: ensureMetricsSetup_reference metrics_available_def)

lemma after_setup_simps:
  "setupMetricsClientPromise (after_setup s) \<noteq> None"
  "is_ready (world (after_setup s)) = is_ready (world s)"
  "null_argument (world (after_setup s)) = null_argument (world s)"
  "selected (world (after_setup s)) Ops = selected (world s) Ops"
  by (simp_all add: after_setup_def)

lemma selected_after_setup:
  "metrics_available s \<Longrightarrow> selected (world (after_setup s)) Metrics = METRICS_DB"
  by (simp add: after_setup_def metrics_available_def)

lemma databases_after_setup:
  "key \<noteq> js ''health'' \<Longrightarrow> databases (world (after_setup s)) d key = databases (world s) d key"
  by (simp add: after_setup_def)

lemma calls_after_setup:
  "calls (world (after_setup s)) =
     calls (world s) @ (if setupMetricsClientPromise s \<noteq> None then []
                        else [(Metrics, Select METRICS_DB), (Metrics, Set (js ''health'') (js ''health''))])"
  by (simp add: after_setup_def)

lemma labels_hash_not_health: "getDeploymentKeyLabelsHash k \<noteq> js ''health''"
  by (simp add: getDeploymentKeyLabelsHash_def js_simps)

lemma counter_after_setup:
  "counter (world (after_setup s)) (getDeploymentKeyLabelsHash k) field
     = counter (world s) (getDeploymentKeyLabelsHash k) field"
  by (simp add: counter_def keyspace_counter_def databases_after_setup labels_hash_not_health)

text \<open>The chain of a metrics method, set-up and one call, when the store is available.\<close>

lemma metrics_call:
  assumes "isEnabled (manager e)" and "metrics_available s"
  shows "then_p (ensureMetricsSetup (manager e))
           (\<lambda>_. safeCall (manager e) (metricsClient (manager e)) m) s
         = invoke (m (node_redis Metrics)) (after_setup s)"
  using assms
  by (simp add: then_p_def ensureMetricsSetup_available manager_clients safeCall_node_redis
      after_setup_simps metrics_available_def)

lemma metrics_write:
  assumes "isEnabled (manager e)" and "metrics_available s"
  shows "catch_p (then_p (then_p (ensureMetricsSetup (manager e))
           (\<lambda>_. safeCall (manager e) (metricsClient (manager e)) m)) (\<lambda>_. q ())) (\<lambda>_. q ()) s
         = (Inr (), (after_setup s)\<lparr>world := snd (m (node_redis Metrics) (world (after_setup s)))\<rparr>)"
proof -
  have "then_p (then_p (ensureMetricsSetup (manager e))
           (\<lambda>_. safeCall (manager e) (metricsClient (manager e)) m)) (\<lambda>_. q ()) s
      = then_p (invoke (m (node_redis Metrics))) (\<lambda>_. q ()) (after_setup s)"
    using metrics_call [OF assms, of m] by (simp add: then_p_def)
  then show ?thesis
    by (cases "m (node_redis Metrics) (world (after_setup s))")
       (simp add: catch_p_def then_p_def invoke_def q_def split: sum.splits)
qed

section \<open>Counters of the reference store\<close>

lemma counter_value_update:
  assumes "- (2 ^ 63) \<le> m" and "m \<le> 2 ^ 63 - 1"
  shows "counter_value (AList.update f (show_int m) h) f'
           = (if f' = f then Some m else counter_value h f')"
  using assms by (simp add: counter_value_def update_conv' string2ll_show_int)

lemma redis_hincrby_counter:
  assumes "keyspace_counter ks key field = Some n"
    and "- (2 ^ 63) \<le> n + d" and "n + d \<le> 2 ^ 63 - 1"
  shows "fst (redis_hincrby key field d ks) = Inr (n + d)"
    and "keyspace_counter (snd (redis_hincrby key field d ks)) key' field'
           = (if key' = key \<and> field' = field then Some (n + d)
              else keyspace_counter ks key' field')"
proof -
  have *: "fst (hincrby_fields key field d h t ks) = Inr (n + d)
    \<and> keyspace_counter (snd (hincrby_fields key field d h t ks)) key' field'
           = (if key' = key \<and> field' = field then Some (n + d)
              else if key' = key then counter_value h field'
              else keyspace_counter ks key' field')"
    if "counter_value h field = Some n" for h t
    using that assms(2,3)
    by (simp add: hincrby_fields_def keyspace_counter_def counter_value_update)
  show "fst (redis_hincrby key field d ks) = Inr (n + d)"
    using assms(1) *
    by (auto simp: redis_hincrby_def keyspace_counter_def counter_value_def
        split: option.splits redis_value.splits prod.splits)
  show "keyspace_counter (snd (redis_hincrby key field d ks)) key' field'
           = (if key' = key \<and> field' = field then Some (n + d)
              else keyspace_counter ks key' field')"
  proof (cases "ks key")
    case None
    then have "counter_value [] field = Some n" using assms(1)
      by (simp add: keyspace_counter_def counter_value_def)
    from * [OF this, of None] None show ?thesis
      by (simp add: redis_hincrby_def keyspace_counter_def counter_value_def)
  next
    case (Some entry)
    then obtain h t where "ks key = Some (HashValue h, t)"
      using assms(1) by (cases entry; cases "fst entry") (auto simp: keyspace_counter_def)
    moreover from this assms(1) have "counter_value h field = Some n"
      by (simp add: keyspace_counter_def)
    ultimately show ?thesis using * [of h t]
      by (simp add: redis_hincrby_def keyspace_counter_def)
  qed
qed

lemma counter_call:
  "selected w c = METRICS_DB \<Longrightarrow>
     counter (snd (call c rq f w)) key field
       = keyspace_counter (snd (f (databases w METRICS_DB))) key field"
  by (cases "f (databases w METRICS_DB)") (simp add: call_def counter_def)

lemma redis_hincrby_arg_Some:
  "redis_hincrby_arg policy key (Some field) d = redis_hincrby key field d"
  by (rule ext) (simp add: redis_hincrby_arg_def)

lemma redis_hincrby_arg_refused:
  "redis_hincrby_arg Refused key None d = (\<lambda>ks. (Inl INVALID_ARGUMENT, ks))"
  by (rule ext) (simp add: redis_hincrby_arg_def)

lemma redis_hincrby_arg_stringified:
  "redis_hincrby_arg Stringified key None d = redis_hincrby key (js ''null'') d"
  by (rule ext) (simp add: redis_hincrby_arg_def)

lemma hincrby_node_redis:
  "hincrby (node_redis c) key (Some field) d w
     = call c (Hincrby key (Some field) d) (redis_hincrby key field d) w"
  by (simp add: node_redis_def redis_hincrby_arg_Some)

lemma has_roomD:
  assumes "has_room w key field" and "counter w key field = Some n"
  shows "- (2 ^ 63) < n" and "n < 2 ^ 63 - 1"
  using assms by (simp_all add: has_room_def)

lemma incrementLabelStatusCount_increments:
  assumes en: "isEnabled (manager e)" and av: "metrics_available s"
    and st: "isValidDeploymentStatus status"
    and n: "counter (world s) (getDeploymentKeyLabelsHash deploymentKey) (label @ js '':'' @ status) = Some n"
    and room: "has_room (world s) (getDeploymentKeyLabelsHash deploymentKey) (label @ js '':'' @ status)"
  shows "counter (world (snd (incrementLabelStatusCount (manager e) deploymentKey label status s)))
           (getDeploymentKeyLabelsHash deploymentKey) (label @ js '':'' @ status) = Some (n + 1)"
proof -
  let ?hash = "getDeploymentKeyLabelsHash deploymentKey"
  let ?field = "label @ js '':'' @ status"
  let ?w = "world (after_setup s)"
  have run: "incrementLabelStatusCount (manager e) deploymentKey label status s
      = (Inr (), (after_setup s)\<lparr>world := snd (hincrby (node_redis Metrics) ?hash (Some ?field) 1 ?w)\<rparr>)"
    using st by (simp add: incrementLabelStatusCount_def getLabelStatusField_def
        metrics_write [OF en av])
  have "keyspace_counter (databases ?w METRICS_DB) ?hash ?field = Some n"
    using n counter_after_setup [of s deploymentKey ?field] by (simp add: counter_def)
  moreover have "- (2 ^ 63) \<le> n + 1" "n + 1 \<le> 2 ^ 63 - 1"
    using has_roomD [OF room n] by simp_all
  ultimately have "keyspace_counter (snd (redis_hincrby ?hash ?field 1 (databases ?w METRICS_DB)))
      ?hash ?field = Some (n + 1)"
    by (simp add: redis_hincrby_counter(2))
  then show ?thesis
    by (simp add: run hincrby_node_redis counter_call selected_after_setup [OF av])
qed

text \<open>
  C9: the field of a status counter is built for every label, the empty one too, whenever
  the status is recognized, while the field of the active counter is refused (null) for
  the empty label; and on an available store incrementLabelStatusCount with a recognized
  status adds one to the field label:status, which is :status for the empty label.
\<close>

theorem status_counters_take_any_label:
  "getLabelActiveCountField [] = None
   \<and> (isValidDeploymentStatus status \<longrightarrow>
        getLabelStatusField [] status = Some (js '':'' @ status)
        \<and> getLabelStatusField label status = Some (label @ js '':'' @ status)
        \<and> (isEnabled (manager e) \<and> metrics_available s
            \<and> counter (world s) (getDeploymentKeyLabelsHash deploymentKey) (js '':'' @ status) = Some n
            \<and> has_room (world s) (getDeploymentKeyLabelsHash deploymentKey) (js '':'' @ status)
           \<longrightarrow> fst (incrementLabelStatusCount (manager e) deploymentKey [] status s) = Inr ()
               \<and> counter (world (snd (incrementLabelStatusCount (manager e) deploymentKey [] status s)))
                   (getDeploymentKeyLabelsHash deploymentKey) (js '':'' @ status) = Some (n + 1)))"
proof (intro conjI impI)
  show "getLabelActiveCountField [] = None" by (simp add: getLabelActiveCountField_def)
next
  assume "isValidDeploymentStatus status"
  then show "getLabelStatusField [] status = Some (js '':'' @ status)"
    and "getLabelStatusField label status = Some (label @ js '':'' @ status)"
    by (simp_all add: getLabelStatusField_def)
next
  assume st: "isValidDeploymentStatus status"
    and h: "isEnabled (manager e) \<and> metrics_available s
            \<and> counter (world s) (getDeploymentKeyLabelsHash deploymentKey) (js '':'' @ status) = Some n
            \<and> has_room (world s) (getDeploymentKeyLabelsHash deploymentKey) (js '':'' @ status)"
  show "fst (incrementLabelStatusCount (manager e) deploymentKey [] status s) = Inr ()"
    by (rule incrementLabelStatusCount_resolves)
  show "counter (world (snd (incrementLabelStatusCount (manager e) deploymentKey [] status s)))
                   (getDeploymentKeyLabelsHash deploymentKey) (js '':'' @ status) = Some (n + 1)"
    using incrementLabelStatusCount_increments [of e s status deploymentKey "[]" n] st h by simp
qed

lemma initial_available: "metrics_available (initial policy)"
  by (simp add: metrics_available_def initial_def empty_store_def)

lemma counter_initial: "counter (world (initial policy)) key field = Some 0"
  by (simp add: counter_def keyspace_counter_def initial_def empty_store_def)

lemma has_room_initial: "has_room (world (initial policy)) key field"
  by (simp add: has_room_def counter_initial)

theorem status_counters_take_any_label_witness:
  "isValidDeploymentStatus (js ''Downloaded'')
   \<and> isEnabled (manager configured) \<and> metrics_available (initial Refused)
   \<and> counter (world (initial Refused)) (getDeploymentKeyLabelsHash (js ''dep1'')) (js '':Downloaded'') = Some 0
   \<and> has_room (world (initial Refused)) (getDeploymentKeyLabelsHash (js ''dep1'')) (js '':Downloaded'')
   \<and> counter (world (snd (incrementLabelStatusCount (manager configured) (js ''dep1'') [] (js ''Downloaded'')
        (initial Refused)))) (getDeploymentKeyLabelsHash (js ''dep1'')) (js '':Downloaded'') = Some 1"
proof -
  have v: "isValidDeploymentStatus (js ''Downloaded'')"
    by (simp add: isValidDeploymentStatus_def DOWNLOADED_def)
  show ?thesis
    using v manager_configured initial_available [of Refused]
      counter_initial [of Refused "getDeploymentKeyLabelsHash (js ''dep1'')" "js '':Downloaded''"]
      has_room_initial [of Refused "getDeploymentKeyLabelsHash (js ''dep1'')" "js '':Downloaded''"]
      status_counters_take_any_label [where status = "js ''Downloaded''" and e = configured
        and s = "initial Refused" and deploymentKey = "js ''dep1''" and n = 0]
    by simp
qed

lemma metrics_write_reference:
  assumes "isEnabled (manager e)"
  shows "snd (catch_p (then_p (then_p (ensureMetricsSetup (manager e))
           (\<lambda>_. safeCall (manager e) (metricsClient (manager e)) m)) (\<lambda>_. q ())) (\<lambda>_. q ()) s)
         = (if setupMetricsClientPromise s = None \<and> \<not> is_ready (world s) Metrics then s
            else if \<not> is_ready (world s) Metrics then after_setup s
            else (after_setup s)\<lparr>world := snd (m (node_redis Metrics) (world (after_setup s)))\<rparr>)"
  using assms
  by (cases "m (node_redis Metrics) (world (after_setup s))")
     (simp add: catch_p_def then_p_def q_def q_reject_def ensureMetricsSetup_reference
       manager_clients safeCall_def ready_node_redis after_setup_simps invoke_def
       split: sum.splits)

lemma hincrby_null_refused:
  "null_argument w = Refused \<Longrightarrow>
     databases (snd (hincrby (node_redis c) key None d w)) = databases w"
  by (simp add: node_redis_def redis_hincrby_arg_refused call_def)

lemma hincrby_null_calls:
  "calls (snd (hincrby (node_redis c) key field d w)) = calls w @ [(c, Hincrby key field d)]"
  by (cases "redis_hincrby_arg (null_argument w) key field d (databases w (selected w c))")
     (simp add: node_redis_def call_def)

lemma hincrby_null_stringified:
  "null_argument w = Stringified \<Longrightarrow>
     hincrby (node_redis c) key None d w
       = call c (Hincrby key None d) (redis_hincrby key (js ''null'') d) w"
  by (simp add: node_redis_def redis_hincrby_arg_stringified)

lemma unrecognized_status_refused:
  assumes "\<not> isValidDeploymentStatus status" and "null_argument (world t) = Refused"
  shows "databases (world (snd (incrementLabelStatusCount (manager e) deploymentKey label status t)))
           d (getDeploymentKeyLabelsHash deploymentKey)
         = databases (world t) d (getDeploymentKeyLabelsHash deploymentKey)"
proof (cases "isEnabled (manager e)")
  case False
  then show ?thesis
    by (simp add: incrementLabelStatusCount_def then_p_def catch_p_def q_def
        ensureMetricsSetup_disabled)
next
  case True
  have "null_argument (world (after_setup t)) = Refused"
    using assms(2) by (simp add: after_setup_simps)
  then show ?thesis
    using assms(1)
    by (simp add: incrementLabelStatusCount_def getLabelStatusField_def
        metrics_write_reference [OF True] hincrby_null_refused databases_after_setup
        labels_hash_not_health)
qed

lemma unrecognized_status_calls:
  assumes "\<not> isValidDeploymentStatus status" and "isEnabled (manager e)"
    and "metrics_available t"
  shows "calls (world (snd (incrementLabelStatusCount (manager e) deploymentKey label status t)))
         = calls (world (after_setup t))
           @ [(Metrics, Hincrby (getDeploymentKeyLabelsHash deploymentKey) None 1)]"
  using assms
  by (simp add: incrementLabelStatusCount_def getLabelStatusField_def metrics_write
      hincrby_null_calls)

text \<open>What the same call does on a client that sends null as the string "null".\<close>

lemma unrecognized_status_stringified:
  assumes st: "\<not> isValidDeploymentStatus status" and en: "isEnabled (manager e)"
    and av: "metrics_available t" and pol: "null_argument (world t) = Stringified"
    and n: "counter (world t) (getDeploymentKeyLabelsHash deploymentKey) (js ''null'') = Some n"
    and room: "has_room (world t) (getDeploymentKeyLabelsHash deploymentKey) (js ''null'')"
  shows "counter (world (snd (incrementLabelStatusCount (manager e) deploymentKey label status t)))
           (getDeploymentKeyLabelsHash deploymentKey) (js ''null'') = Some (n + 1)"
proof -
  let ?hash = "getDeploymentKeyLabelsHash deploymentKey"
  let ?w = "world (after_setup t)"
  have pol': "null_argument ?w = Stringified" using pol by (simp add: after_setup_simps)
  have run: "incrementLabelStatusCount (manager e) deploymentKey label status t
      = (Inr (), (after_setup t)\<lparr>world := snd (hincrby (node_redis Metrics) ?hash None 1 ?w)\<rparr>)"
    using st by (simp add: incrementLabelStatusCount_def getLabelStatusField_def
        metrics_write [OF en av])
  have "keyspace_counter (databases ?w METRICS_DB) ?hash (js ''null'') = Some n"
    using n counter_after_setup [of t deploymentKey "js ''null''"] by (simp add: counter_def)
  moreover have "- (2 ^ 63) \<le> n + 1" "n + 1 \<le> 2 ^ 63 - 1"
    using has_roomD [OF room n] by simp_all
  ultimately have "keyspace_counter (snd (redis_hincrby ?hash (js ''null'') 1 (databases ?w METRICS_DB)))
      ?hash (js ''null'') = Some (n + 1)"
    by (simp add: redis_hincrby_counter(2))
  then show ?thesis
    by (simp add: run hincrby_null_stringified [OF pol'] counter_call selected_after_setup [OF av])
qed

text \<open>
  C4, as amended: with a status that is not recognized, incrementLabelStatusCount
  surfaces no error, whatever the client does; the manager does not hold the call back:
  on an available store what it asks of the client is one HINCRBY on the hash of the
  deployment with a null field name, and when the client refuses a null argument every
  field of the hash is left as it was.
\<close>

theorem unrecognized_status_is_left_to_the_client:
  fixes this :: "'w RedisManager" and s :: "'w state" and t :: "redis state"
  shows
  "\<not> isValidDeploymentStatus status \<longrightarrow>
     fst (incrementLabelStatusCount this deploymentKey label status s) = Inr ()
     \<and> (isEnabled (manager e) \<and> metrics_available t \<longrightarrow>
          calls (world (snd (incrementLabelStatusCount (manager e) deploymentKey label status t)))
          = calls (world (after_setup t))
            @ [(Metrics, Hincrby (getDeploymentKeyLabelsHash deploymentKey) None 1)])
     \<and> (null_argument (world t) = Refused \<longrightarrow>
          databases (world (snd (incrementLabelStatusCount (manager e) deploymentKey label status t)))
            d (getDeploymentKeyLabelsHash deploymentKey)
          = databases (world t) d (getDeploymentKeyLabelsHash deploymentKey))"
  by (intro conjI impI incrementLabelStatusCount_resolves unrecognized_status_refused
      unrecognized_status_calls) simp_all

lemma not_valid_Bogus: "\<not> isValidDeploymentStatus (js ''Bogus'')"
  by (simp add: isValidDeploymentStatus_def DEPLOYMENT_SUCCEEDED_def DEPLOYMENT_FAILED_def
      DOWNLOADED_def)

lemma null_argument_initial: "null_argument (world (initial policy)) = policy"
  by (simp add: initial_def empty_store_def)

theorem unrecognized_status_is_left_to_the_client_witness:
  "\<not> isValidDeploymentStatus (js ''Bogus'')
   \<and> isEnabled (manager configured) \<and> metrics_available (initial Refused)
   \<and> null_argument (world (initial Refused)) = Refused
   \<and> fst (incrementLabelStatusCount (manager configured) (js ''dep1'') (js ''v1'') (js ''Bogus'')
        (initial Refused)) = Inr ()
   \<and> calls (world (snd (incrementLabelStatusCount (manager configured) (js ''dep1'') (js ''v1'')
        (js ''Bogus'') (initial Refused))))
       = calls (world (after_setup (initial Refused)))
         @ [(Metrics, Hincrby (getDeploymentKeyLabelsHash (js ''dep1'')) None 1)]
   \<and> databases (world (snd (incrementLabelStatusCount (manager configured) (js ''dep1'') (js ''v1'')
        (js ''Bogus'') (initial Refused)))) METRICS_DB (getDeploymentKeyLabelsHash (js ''dep1''))
       = databases (world (initial Refused)) METRICS_DB (getDeploymentKeyLabelsHash (js ''dep1''))"
  using not_valid_Bogus manager_configured
    null_argument_initial [of Refused] initial_available [of Refused]
    unrecognized_status_is_left_to_the_client [where status = "js ''Bogus''" and e = configured
      and t = "initial Refused" and deploymentKey = "js ''dep1''" and label = "js ''v1''"
      and d = METRICS_DB and this = "manager configured" and s = "initial Refused"]
  by simp

text \<open>
  C4 as stated fails on a client that sends a null argument as the string "null": the
  status Bogus is not recognized, and the hash of the deployment, absent before the
  call, has the field "null" at 1 after it.
\<close>

theorem unrecognized_status_counterexample:
  "\<not> isValidDeploymentStatus (js ''Bogus'')
   \<and> databases (world (initial Stringified)) METRICS_DB (getDeploymentKeyLabelsHash (js ''dep1'')) = None
   \<and> databases (world (snd (incrementLabelStatusCount (manager configured) (js ''dep1'') (js ''v1'')
        (js ''Bogus'') (initial Stringified)))) METRICS_DB (getDeploymentKeyLabelsHash (js ''dep1''))
       = Some (HashValue [(js ''null'', js ''1'')], None)"
  by code_simp

section \<open>The cache on the reference store\<close>

lemma ops_call:
  "isEnabled (manager e) \<Longrightarrow> is_ready (world s) Ops \<Longrightarrow>
     safeCall (manager e) (opsClient (manager e)) m s = invoke (m (node_redis Ops)) s"
  by (simp add: manager_clients safeCall_node_redis)

lemma call_keeps:
  "is_ready (snd (call c rq f w)) = is_ready w"
  "selected (snd (call c rq f w)) = selected w"
  "null_argument (snd (call c rq f w)) = null_argument w"
  "calls (snd (call c rq f w)) = calls w @ [(c, rq)]"
  "databases (snd (call c rq f w)) = (databases w)(selected w c := snd (f (databases w (selected w c))))"
  "fst (call c rq f w) = fst (f (databases w (selected w c)))"
  by (cases "f (databases w (selected w c))"; simp add: call_def)+

lemma invoke_call:
  "invoke (call c rq f) s
     = (fst (f (databases (world s) (selected (world s) c))), s\<lparr>world := snd (call c rq f (world s))\<rparr>)"
  by (cases "f (databases (world s) (selected (world s) c))") (simp add: invoke_def call_def)

lemma node_redis_cache:
  "exists (node_redis c) key = call c (Exists key) (redis_exists key)"
  "hset (node_redis c) key field v = call c (Hset key field v) (redis_hset key field v)"
  "expire (node_redis c) key n = call c (Expire key n) (redis_expire key n)"
  "hget (node_redis c) key field = call c (Hget key field) (redis_hget key field)"
  by (simp_all add: node_redis_def)

lemma getCachedResponse_reference:
  assumes "isEnabled (manager e)" and "is_ready (world s) Ops"
  shows "fst (getCachedResponse json (manager e) expiryKey url s)
         = Inr (case cached_text (world s) expiryKey url of
                  None \<Rightarrow> None
                | Some str \<Rightarrow>
                    if str \<noteq> [] then (case parse json str of Inl _ \<Rightarrow> None | Inr r \<Rightarrow> Some r)
                    else None)"
  using assms
  by (simp add: getCachedResponse_def ops_call node_redis_cache invoke_call
      then_p_def catch_p_def q_def q_reject_def redis_hget_def cached_text_def
      split: option.splits redis_value.splits sum.splits)

text \<open>The state setCachedResponse leaves, by what the key held before.\<close>

lemma setCachedResponse_new_key:
  assumes en: "isEnabled (manager e)" and rd: "is_ready (world s) Ops"
    and js: "stringify json response = Inr str"
    and new: "databases (world s) (selected (world s) Ops) expiryKey = None"
  shows "snd (setCachedResponse json (manager e) expiryKey url response s)
         = s\<lparr>world := (world s)
              \<lparr>databases := (databases (world s))
                 (selected (world s) Ops := (databases (world s) (selected (world s) Ops))
                    (expiryKey \<mapsto> (HashValue [(url, str)], Some DEFAULT_EXPIRY))),
               calls := calls (world s) @
                 [(Ops, Exists expiryKey), (Ops, Hset expiryKey url str),
                  (Ops, Expire expiryKey DEFAULT_EXPIRY)]\<rparr>\<rparr>"
  using en rd js new
  by (simp add: setCachedResponse_def ops_call node_redis_cache invoke_call call_keeps
      then_p_def catch_p_def q_def redis_exists_def redis_hset_def redis_expire_def
      DEFAULT_EXPIRY_def)

lemma setCachedResponse_old_hash:
  assumes en: "isEnabled (manager e)" and rd: "is_ready (world s) Ops"
    and js: "stringify json response = Inr str"
    and old: "databases (world s) (selected (world s) Ops) expiryKey = Some (HashValue h, t)"
  shows "snd (setCachedResponse json (manager e) expiryKey url response s)
         = s\<lparr>world := (world s)
              \<lparr>databases := (databases (world s))
                 (selected (world s) Ops := (databases (world s) (selected (world s) Ops))
                    (expiryKey \<mapsto> (HashValue (AList.update url str h), t))),
               calls := calls (world s) @
                 [(Ops, Exists expiryKey), (Ops, Hset expiryKey url str)]\<rparr>\<rparr>"
  using en rd js old
  by (simp add: setCachedResponse_def ops_call node_redis_cache invoke_call call_keeps
      then_p_def catch_p_def q_def redis_exists_def redis_hset_def)

lemma setCachedResponse_old_string:
  assumes en: "isEnabled (manager e)" and rd: "is_ready (world s) Ops"
    and js: "stringify json response = Inr str"
    and old: "databases (world s) (selected (world s) Ops) expiryKey = Some (StringValue v, t)"
  shows "snd (setCachedResponse json (manager e) expiryKey url response s)
         = s\<lparr>world := (world s)
              \<lparr>calls := calls (world s) @
                 [(Ops, Exists expiryKey), (Ops, Hset expiryKey url str)]\<rparr>\<rparr>"
  using en rd js old
  by (simp add: setCachedResponse_def ops_call node_redis_cache invoke_call call_keeps
      then_p_def catch_p_def q_def redis_exists_def redis_hset_def)

lemma setCachedResponse_calls:
  assumes "isEnabled (manager e)" and "is_ready (world s) Ops"
    and "stringify json response = Inr str"
  shows "calls (world (snd (setCachedResponse json (manager e) expiryKey url response s)))
         = calls (world s) @ [(Ops, Exists expiryKey), (Ops, Hset expiryKey url str)]
           @ (if cache_exists (world s) expiryKey then []
              else [(Ops, Expire expiryKey DEFAULT_EXPIRY)])"
proof (cases "databases (world s) (selected (world s) Ops) expiryKey")
  case None
  with assms show ?thesis by (simp add: setCachedResponse_new_key cache_exists_def)
next
  case (Some entry)
  obtain v t where entry: "entry = (v, t)" by (cases entry)
  show ?thesis
  proof (cases v)
    case (StringValue x)
    with Some entry assms show ?thesis
      by (simp add: setCachedResponse_old_string cache_exists_def)
  next
    case (HashValue h)
    with Some entry assms show ?thesis
      by (simp add: setCachedResponse_old_hash cache_exists_def)
  qed
qed

lemma setCachedResponse_time_to_live:
  assumes "isEnabled (manager e)" and "is_ready (world s) Ops"
    and "stringify json response = Inr str"
  shows "time_to_live (world (snd (setCachedResponse json (manager e) expiryKey url response s)))
           expiryKey
         = (if cache_exists (world s) expiryKey then time_to_live (world s) expiryKey
            else Some DEFAULT_EXPIRY)"
proof (cases "databases (world s) (selected (world s) Ops) expiryKey")
  case None
  with assms show ?thesis
    by (simp add: setCachedResponse_new_key cache_exists_def time_to_live_def)
next
  case (Some entry)
  obtain v t where entry: "entry = (v, t)" by (cases entry)
  show ?thesis
  proof (cases v)
    case (StringValue x)
    with Some entry assms show ?thesis
      by (simp add: setCachedResponse_old_string cache_exists_def time_to_live_def)
  next
    case (HashValue h)
    with Some entry assms show ?thesis
      by (simp add: setCachedResponse_old_hash cache_exists_def time_to_live_def)
  qed
qed

lemma setCachedResponse_cached_text:
  assumes "isEnabled (manager e)" and "is_ready (world s) Ops"
    and "stringify json response = Inr str" and "cache_key_usable (world s) expiryKey"
  shows "cached_text (world (snd (setCachedResponse json (manager e) expiryKey url response s)))
           expiryKey other
         = (if other = url then Some str else cached_text (world s) expiryKey other)"
proof (cases "databases (world s) (selected (world s) Ops) expiryKey")
  case None
  with assms show ?thesis
    by (simp add: setCachedResponse_new_key cached_text_def)
next
  case (Some entry)
  obtain v t where entry: "entry = (v, t)" by (cases entry)
  show ?thesis
  proof (cases v)
    case (StringValue x)
    with Some entry assms show ?thesis by (simp add: cache_key_usable_def)
  next
    case (HashValue h)
    with Some entry assms show ?thesis
      by (simp add: setCachedResponse_old_hash cached_text_def update_conv')
  qed
qed

lemma setCachedResponse_ready:
  "is_ready (world (snd (setCachedResponse json (manager e) expiryKey url response s)))
     = is_ready (world s)"
proof (cases "isEnabled (manager e) \<and> is_ready (world s) Ops")
  case False
  then have off: "safeCall (manager e) (opsClient (manager e)) m s
      = (Inl (Error ''Redis client is not ready''), s)" for m :: "redis RedisClient \<Rightarrow> redis \<Rightarrow> (error + int) \<times> redis"
    by (auto simp: safeCall_def q_reject_def manager_clients ready_node_redis split: option.splits)
  show ?thesis
    by (simp add: setCachedResponse_def then_p_def catch_p_def q_def q_reject_def off
        split: sum.splits)
next
  case True
  show ?thesis
  proof (cases "stringify json response")
    case (Inl err)
    then show ?thesis by (simp add: setCachedResponse_def q_reject_def)
  next
    case (Inr str)
    show ?thesis
    proof (cases "databases (world s) (selected (world s) Ops) expiryKey")
      case None
      with True Inr show ?thesis by (simp add: setCachedResponse_new_key)
    next
      case (Some entry)
      obtain v t where entry: "entry = (v, t)" by (cases entry)
      show ?thesis
      proof (cases v)
        case (StringValue x)
        with Some entry True Inr show ?thesis by (simp add: setCachedResponse_old_string)
      next
        case (HashValue h)
        with Some entry True Inr show ?thesis by (simp add: setCachedResponse_old_hash)
      qed
    qed
  qed
qed

text \<open>
  C5: on an available store setCachedResponse asks for the expiry, of 3600 seconds, exactly
  when the key did not exist before the call; then the key has that time to live after
  it. When the key existed, the calls made are the check and the write, none sets an
  expiry, and the time to live of the key is what it was.
\<close>

theorem expiry_is_set_with_the_first_write_only:
  fixes json :: "'r JSON"
  defines "after \<equiv> \<lambda>e expiryKey url response s.
             world (snd (setCachedResponse json (manager e) expiryKey url response s))"
  shows
  "isEnabled (manager e) \<and> is_ready (world s) Ops \<and> stringify json response = Inr str \<longrightarrow>
     (\<not> cache_exists (world s) expiryKey \<longrightarrow>
        calls (after e expiryKey url response s)
          = calls (world s) @ [(Ops, Exists expiryKey), (Ops, Hset expiryKey url str),
                               (Ops, Expire expiryKey 3600)]
        \<and> time_to_live (after e expiryKey url response s) expiryKey = Some 3600)
     \<and> (cache_exists (world s) expiryKey \<longrightarrow>
        calls (after e expiryKey url response s)
          = calls (world s) @ [(Ops, Exists expiryKey), (Ops, Hset expiryKey url str)]
        \<and> time_to_live (after e expiryKey url response s) expiryKey
          = time_to_live (world s) expiryKey)"
  unfolding after_def
  by (simp add: setCachedResponse_calls setCachedResponse_time_to_live DEFAULT_EXPIRY_def)

lemma ready_initial: "is_ready (world (initial policy)) c"
  by (simp add: initial_def empty_store_def)

lemma stringify_pair_codec:
  "stringify pair_codec \<lparr>statusCode = 200, body = 7\<rparr> = Inr (js ''[200,7]'')"
  "stringify pair_codec \<lparr>statusCode = 404, body = 0\<rparr> = Inr (js ''[404,0]'')"
  by code_simp+

lemma parse_pair_codec:
  "parse pair_codec (js ''[200,7]'') = Inr \<lparr>statusCode = 200, body = 7\<rparr>"
  by (simp add: pair_codec_def)

lemma first_write_facts:
  "is_ready (world first_write) Ops" "cache_exists (world first_write) (js ''v1'')"
  "\<not> cache_exists (world (initial Refused)) (js ''v1'')"
  "cache_key_usable (world (initial Refused)) (js ''v1'')"
  by code_simp+

theorem expiry_is_set_with_the_first_write_only_witness:
  "isEnabled (manager configured) \<and> is_ready (world (initial Refused)) Ops
   \<and> \<not> cache_exists (world (initial Refused)) (js ''v1'')
   \<and> time_to_live (world first_write) (js ''v1'') = Some 3600
   \<and> is_ready (world first_write) Ops \<and> cache_exists (world first_write) (js ''v1'')
   \<and> calls (world second_write)
       = calls (world first_write)
         @ [(Ops, Exists (js ''v1'')), (Ops, Hset (js ''v1'') (js ''https://host/other'') (js ''[404,0]''))]
   \<and> time_to_live (world second_write) (js ''v1'') = Some 3600"
  using manager_configured ready_initial [of Refused Ops] first_write_facts
    stringify_pair_codec
    expiry_is_set_with_the_first_write_only [where e = configured and s = "initial Refused"
      and json = pair_codec and response = "\<lparr>statusCode = 200, body = 7\<rparr>"
      and str = "js ''[200,7]''" and expiryKey = "js ''v1''" and url = "js ''https://host/updateCheck''"]
    expiry_is_set_with_the_first_write_only [where e = configured and s = first_write
      and json = pair_codec and response = "\<lparr>statusCode = 404, body = 0\<rparr>"
      and str = "js ''[404,0]''" and expiryKey = "js ''v1''" and url = "js ''https://host/other''"]
  by (simp add: first_write_def [symmetric] second_write_def [symmetric])

text \<open>
  C3, as amended: on an available store, for a key that is free or holds a hash and a
  response that the codec writes as a non-empty text and reads back from it,
  setCachedResponse followed by getCachedResponse of the same url resolves to the
  response; getCachedResponse of any other url under the key resolves to what it
  resolved to before the write, which is null when that url had no entry.
\<close>

theorem cached_response_is_read_back:
  fixes json :: "'r JSON"
  defines "written \<equiv> \<lambda>e expiryKey url response s.
             snd (setCachedResponse json (manager e) expiryKey url response s)"
  shows
  "isEnabled (manager e) \<and> is_ready (world s) Ops \<and> cache_key_usable (world s) expiryKey
   \<and> stringify json response = Inr str \<and> str \<noteq> [] \<and> parse json str = Inr response \<longrightarrow>
     fst (getCachedResponse json (manager e) expiryKey url (written e expiryKey url response s))
       = Inr (Some response)
     \<and> (other \<noteq> url \<longrightarrow>
          fst (getCachedResponse json (manager e) expiryKey other
                 (written e expiryKey url response s))
          = fst (getCachedResponse json (manager e) expiryKey other s))
     \<and> (other \<noteq> url \<and> cached_text (world s) expiryKey other = None \<longrightarrow>
          fst (getCachedResponse json (manager e) expiryKey other
                 (written e expiryKey url response s))
          = Inr None)"
  unfolding written_def
  by (simp add: getCachedResponse_reference setCachedResponse_ready setCachedResponse_cached_text)

theorem cached_response_is_read_back_witness:
  "isEnabled (manager configured) \<and> is_ready (world (initial Refused)) Ops
   \<and> cache_key_usable (world (initial Refused)) (js ''v1'')
   \<and> stringify pair_codec \<lparr>statusCode = 200, body = 7\<rparr> = Inr (js ''[200,7]'')
   \<and> parse pair_codec (js ''[200,7]'') = Inr \<lparr>statusCode = 200, body = 7\<rparr>
   \<and> cached_text (world (initial Refused)) (js ''v1'') (js ''https://host/other'') = None
   \<and> fst (getCachedResponse pair_codec (manager configured) (js ''v1'') (js ''https://host/updateCheck'')
        first_write) = Inr (Some \<lparr>statusCode = 200, body = 7\<rparr>)
   \<and> fst (getCachedResponse pair_codec (manager configured) (js ''v1'') (js ''https://host/other'')
        first_write) = Inr None"
proof -
  have c: "cached_text (world (initial Refused)) (js ''v1'') (js ''https://host/other'') = None"
    by code_simp
  have ne: "js ''[200,7]'' \<noteq> []" "js ''https://host/other'' \<noteq> js ''https://host/updateCheck''"
    by simp_all
  show ?thesis
    using manager_configured ready_initial [of Refused Ops] first_write_facts(4) c ne
      stringify_pair_codec(1) parse_pair_codec
      cached_response_is_read_back [where e = configured and s = "initial Refused"
        and json = pair_codec and response = "\<lparr>statusCode = 200, body = 7\<rparr>"
        and str = "js ''[200,7]''" and expiryKey = "js ''v1''" and url = "js ''https://host/updateCheck''"
        and other = "js ''https://host/other''"]
    unfolding first_write_def by blast
qed

text \<open>
  C3 as stated fails when another url has an entry under the key: after the response
  for /other is cached under v1, the url /updateCheck, cached before under v1, still
  resolves to its response and not to null.
\<close>

theorem other_url_counterexample:
  "second_write
     = snd (setCachedResponse pair_codec (manager configured) (js ''v1'') (js ''https://host/other'')
              \<lparr>statusCode = 404, body = 0\<rparr> first_write)
   \<and> fst (getCachedResponse pair_codec (manager configured) (js ''v1'') (js ''https://host/updateCheck'')
            second_write)
       = Inr (Some \<lparr>statusCode = 200, body = 7\<rparr>)"
proof
  show "second_write
     = snd (setCachedResponse pair_codec (manager configured) (js ''v1'') (js ''https://host/other'')
              \<lparr>statusCode = 404, body = 0\<rparr> first_write)"
    by (simp add: second_write_def)
  show "fst (getCachedResponse pair_codec (manager configured) (js ''v1'') (js ''https://host/updateCheck'')
            second_write)
       = Inr (Some \<lparr>statusCode = 200, body = 7\<rparr>)"
    by code_simp
qed

section \<open>recordUpdate on the reference store\<close>

lemma execBatch_node_redis:
  "execBatch (node_redis c) cs w
     = call c (ExecBatch cs)
         (\<lambda>ks. case redis_batch (null_argument w) cs ks of (rs, ks') \<Rightarrow> (Inr rs, ks')) w"
  by (simp add: node_redis_def)

lemma snd_redis_batch_hincrby:
  "snd (redis_batch policy (BatchHincrby key (Some f) d # cs) ks)
     = snd (redis_batch policy cs (snd (redis_hincrby key f d ks)))"
  by (cases "redis_hincrby key f d ks"; cases "redis_batch policy cs (snd (redis_hincrby key f d ks))")
     (simp add: redis_hincrby_arg_Some)

lemma hincrby_step:
  assumes "keyspace_counter ks key f = Some n" and "- (2 ^ 63) < n" and "n < 2 ^ 63 - 1"
    and "d = 1 \<or> d = - 1"
  shows "keyspace_counter (snd (redis_hincrby key f d ks))
           = (\<lambda>key' f'. if key' = key \<and> f' = f then Some (n + d) else keyspace_counter ks key' f')"
proof -
  from assms have "- (2 ^ 63) \<le> n + d" "n + d \<le> 2 ^ 63 - 1" by auto
  with assms(1) show ?thesis by (intro ext) (rule redis_hincrby_counter(2))
qed

lemma active_not_succeeded: "pl @ js '':Active'' \<noteq> cl @ js '':DeploymentSucceeded''"
proof
  assume "pl @ js '':Active'' = cl @ js '':DeploymentSucceeded''"
  then have "last (pl @ js '':Active'') = last (cl @ js '':DeploymentSucceeded'')" by simp
  then show False by (simp add: js_simps)
qed

lemma labels_hash_inj [simp]:
  "getDeploymentKeyLabelsHash k = getDeploymentKeyLabelsHash k' \<longleftrightarrow> k = k'"
  by (simp add: getDeploymentKeyLabelsHash_def)

text \<open>The batch recordUpdate hands to the client, for a current label that is not empty.\<close>

lemma recordUpdate_reference:
  assumes en: "isEnabled (manager e)" and av: "metrics_available s"
    and cl: "currentLabel \<noteq> []"
  shows "recordUpdate (manager e) currentKey currentLabel previousKey previousLabel s
         = (Inr (), (after_setup s)\<lparr>world :=
              snd (execBatch (node_redis Metrics)
                (map (\<lambda>(k, f, d). BatchHincrby (getDeploymentKeyLabelsHash k) (Some f) d)
                   (recorded_fields currentKey currentLabel previousKey previousLabel))
                (world (after_setup s)))\<rparr>)"
proof -
  have "[BatchHincrby (getDeploymentKeyLabelsHash currentKey) (getLabelActiveCountField currentLabel) 1,
         BatchHincrby (getDeploymentKeyLabelsHash currentKey)
           (getLabelStatusField currentLabel DEPLOYMENT_SUCCEEDED) 1]
        @ (case (previousKey, previousLabel) of
             (Some pk, Some pl) \<Rightarrow>
               if pk \<noteq> [] \<and> pl \<noteq> []
               then [BatchHincrby (getDeploymentKeyLabelsHash pk) (getLabelActiveCountField pl) (- 1)]
               else []
           | _ \<Rightarrow> [])
      = map (\<lambda>(k, f, d). BatchHincrby (getDeploymentKeyLabelsHash k) (Some f) d)
          (recorded_fields currentKey currentLabel previousKey previousLabel)"
    using cl
    by (simp add: recorded_fields_def getLabelActiveCountField_def getLabelStatusField_def
        isValidDeploymentStatus_def DEPLOYMENT_SUCCEEDED_def ACTIVE_def split: option.splits)
  then show ?thesis
    by (simp add: recordUpdate_def Let_def metrics_write [OF en av])
qed

lemma recordUpdate_counters:
  assumes en: "isEnabled (manager e)" and av: "metrics_available s"
    and cl: "currentLabel \<noteq> []"
    and room: "list_all (\<lambda>(k, f, d). has_room (world s) (getDeploymentKeyLabelsHash k) f)
                 (recorded_fields currentKey currentLabel previousKey previousLabel)"
    and n: "counter (world s) (getDeploymentKeyLabelsHash k) field = Some n"
  shows "counter (world (snd (recordUpdate (manager e) currentKey currentLabel previousKey
                               previousLabel s)))
           (getDeploymentKeyLabelsHash k) field
         = Some (n + recorded_change currentKey currentLabel previousKey previousLabel k field)"
proof -
  let ?H = getDeploymentKeyLabelsHash
  let ?w = "world (after_setup s)"
  let ?ks = "databases ?w METRICS_DB"
  let ?A = "currentLabel @ js '':Active''" and ?S = "currentLabel @ js '':DeploymentSucceeded''"
  let ?p = "null_argument ?w"
  have K0: "keyspace_counter ?ks (?H k') f' = counter (world s) (?H k') f'" for k' f'
    using counter_after_setup [of s k' f'] by (simp add: counter_def)
  have rA: "has_room (world s) (?H currentKey) ?A" and rS: "has_room (world s) (?H currentKey) ?S"
    using room by (simp_all add: recorded_fields_def)
  obtain a where a: "counter (world s) (?H currentKey) ?A = Some a"
    and a_room: "- (2 ^ 63) < a" "a < 2 ^ 63 - 1"
    using rA by (auto simp: has_room_def split: option.splits)
  obtain b where b: "counter (world s) (?H currentKey) ?S = Some b"
    and b_room: "- (2 ^ 63) < b" "b < 2 ^ 63 - 1"
    using rS by (auto simp: has_room_def split: option.splits)
  let ?ks1 = "snd (redis_hincrby (?H currentKey) ?A 1 ?ks)"
  have K1: "keyspace_counter ?ks1
      = (\<lambda>key' f'. if key' = ?H currentKey \<and> f' = ?A then Some (a + 1)
                   else keyspace_counter ?ks key' f')"
    using a a_room by (intro hincrby_step) (simp_all add: K0)
  let ?ks2 = "snd (redis_hincrby (?H currentKey) ?S 1 ?ks1)"
  have K2: "keyspace_counter ?ks2
      = (\<lambda>key' f'. if key' = ?H currentKey \<and> f' = ?S then Some (b + 1)
                   else keyspace_counter ?ks1 key' f')"
    using b b_room by (intro hincrby_step) (simp_all add: K1 K0)
  have run: "counter (world (snd (recordUpdate (manager e) currentKey currentLabel previousKey
                               previousLabel s))) key' f'
      = keyspace_counter (snd (redis_batch ?p
            (map (\<lambda>(k, f, d). BatchHincrby (?H k) (Some f) d)
               (recorded_fields currentKey currentLabel previousKey previousLabel)) ?ks)) key' f'"
    for key' f'
    by (cases "redis_batch ?p
            (map (\<lambda>(k, f, d). BatchHincrby (?H k) (Some f) d)
               (recorded_fields currentKey currentLabel previousKey previousLabel)) ?ks")
       (simp add: recordUpdate_reference [OF en av cl] execBatch_node_redis counter_call
         selected_after_setup [OF av])
  show ?thesis
  proof (cases "\<exists>pk pl. previousKey = Some pk \<and> previousLabel = Some pl \<and> pk \<noteq> [] \<and> pl \<noteq> []")
    case False
    then have fields: "recorded_fields currentKey currentLabel previousKey previousLabel
        = [(currentKey, ?A, 1), (currentKey, ?S, 1)]"
      by (auto simp: recorded_fields_def split: option.splits)
    have "snd (redis_batch ?p
            (map (\<lambda>(k, f, d). BatchHincrby (?H k) (Some f) d)
               (recorded_fields currentKey currentLabel previousKey previousLabel)) ?ks) = ?ks2"
      by (simp only: fields list.map prod.case snd_redis_batch_hincrby redis_batch.simps(1) snd_conv)
    then have cnt: "counter (world (snd (recordUpdate (manager e) currentKey currentLabel previousKey
                               previousLabel s))) key' f' = keyspace_counter ?ks2 key' f'" for key' f'
      by (simp only: run)
    show ?thesis
    proof (cases "k = currentKey \<and> field = ?A")
      case True
      with n a have "n = a" by simp
      with True show ?thesis by (simp add: cnt fields K2 K1 recorded_change_def)
    next
      case notA: False
      show ?thesis
      proof (cases "k = currentKey \<and> field = ?S")
        case True
        with n b have "n = b" by simp
        with True show ?thesis by (simp add: cnt fields K2 recorded_change_def)
      next
        case False
        with notA n show ?thesis by (auto simp: cnt fields K2 K1 K0 recorded_change_def)
      qed
    qed
  next
    case True
    then obtain pk pl where prev: "previousKey = Some pk" "previousLabel = Some pl"
      "pk \<noteq> []" "pl \<noteq> []" by blast
    let ?P = "pl @ js '':Active''"
    from prev have fields: "recorded_fields currentKey currentLabel previousKey previousLabel
        = [(currentKey, ?A, 1), (currentKey, ?S, 1), (pk, ?P, - 1)]"
      by (simp add: recorded_fields_def)
    have "has_room (world s) (?H pk) ?P" using room by (simp add: fields)
    then obtain c where c: "counter (world s) (?H pk) ?P = Some c"
      and c_room: "- (2 ^ 63) < c" "c < 2 ^ 63 - 1"
      by (auto simp: has_room_def split: option.splits)
    define v where "v = (if pk = currentKey \<and> pl = currentLabel then a + 1 else c)"
    have same: "pk = currentKey \<and> pl = currentLabel \<Longrightarrow> c = a" using a c by simp
    have v: "keyspace_counter ?ks2 (?H pk) ?P = Some v"
      using c a by (simp add: K2 K1 K0 v_def active_not_succeeded)
    have v_room: "- (2 ^ 63) < v" "v < 2 ^ 63 - 1 \<or> v = a + 1"
      using a_room c_room by (simp_all add: v_def)
    have "- (2 ^ 63) \<le> v + - 1" "v + - 1 \<le> 2 ^ 63 - 1"
      using v_room a_room by auto
    with v have K3: "keyspace_counter (snd (redis_hincrby (?H pk) ?P (- 1) ?ks2)) key' f'
        = (if key' = ?H pk \<and> f' = ?P then Some (v + - 1)
           else keyspace_counter ?ks2 key' f')" for key' f'
      by (rule redis_hincrby_counter(2))
    have "snd (redis_batch ?p
            (map (\<lambda>(k, f, d). BatchHincrby (?H k) (Some f) d)
               (recorded_fields currentKey currentLabel previousKey previousLabel)) ?ks)
          = snd (redis_hincrby (?H pk) ?P (- 1) ?ks2)"
      by (simp only: fields list.map prod.case snd_redis_batch_hincrby redis_batch.simps(1) snd_conv)
    then have cnt: "counter (world (snd (recordUpdate (manager e) currentKey currentLabel previousKey
                               previousLabel s))) key' f'
          = keyspace_counter (snd (redis_hincrby (?H pk) ?P (- 1) ?ks2)) key' f'" for key' f'
      by (simp only: run)
    show ?thesis
    proof (cases "k = pk \<and> field = ?P")
      case True
      with n c have nc: "n = c" by simp
      have val: "counter (world (snd (recordUpdate (manager e) currentKey currentLabel
                   previousKey previousLabel s))) (?H pk) ?P = Some (v + - 1)"
        by (simp add: cnt K3)
      show ?thesis
      proof (cases "pk = currentKey \<and> pl = currentLabel")
        case same: True
        with a c have "v = n + 1" by (simp add: v_def nc)
        with True same val show ?thesis
          by (simp add: fields recorded_change_def)
      next
        case False
        then have "v = n" by (auto simp: v_def nc)
        with True False val show ?thesis
          by (auto simp: fields recorded_change_def active_not_succeeded
              active_not_succeeded [symmetric])
      qed
    next
      case notP: False
      show ?thesis
      proof (cases "k = currentKey \<and> field = ?A")
        case True
        with n a have "n = a" by simp
        with True notP show ?thesis
          by (auto simp: cnt fields K3 K2 K1 recorded_change_def)
      next
        case notA: False
        show ?thesis
        proof (cases "k = currentKey \<and> field = ?S")
          case True
          with n b have "n = b" by simp
          with True notP show ?thesis
            by (auto simp: cnt fields K3 K2 recorded_change_def active_not_succeeded)
        next
          case False
          with notA notP n show ?thesis
            by (auto simp: cnt fields K3 K2 K1 K0 recorded_change_def)
        qed
      qed
    qed
  qed
qed

lemma recordUpdate_calls:
  assumes en: "isEnabled (manager e)" and av: "metrics_available s"
    and cl: "currentLabel \<noteq> []"
  shows "calls (world (snd (recordUpdate (manager e) currentKey currentLabel previousKey
                              previousLabel s)))
         = calls (world (after_setup s))
           @ [(Metrics, ExecBatch
                (map (\<lambda>(k, f, d). BatchHincrby (getDeploymentKeyLabelsHash k) (Some f) d)
                   (recorded_fields currentKey currentLabel previousKey previousLabel)))]"
  by (simp add: recordUpdate_reference [OF en av cl] execBatch_node_redis call_keeps)

text \<open>
  C1, as amended: on an available store and for a current label that is not empty,
  recordUpdate surfaces no error and, once the set-up is done, makes one call on the
  client, the execution of one batch: an increment by 1 of the fields currentLabel:Active and
  currentLabel:DeploymentSucceeded of the hash of the current deployment and, exactly when
  a previous key and a previous label are both given and not empty, a decrement by 1 of
  the field previousLabel:Active of the hash of the previous deployment. When each of
  these fields holds a count with room for it, every count of every hash of label
  counters changes by the sum of the amounts the batch has for it.
\<close>

theorem recordUpdate_submits_one_batch:
  defines "recorded \<equiv> \<lambda>e currentKey currentLabel previousKey previousLabel s.
             world (snd (recordUpdate (manager e) currentKey currentLabel previousKey
                           previousLabel s))"
  shows
  "isEnabled (manager e) \<and> metrics_available s \<and> currentLabel \<noteq> [] \<longrightarrow>
     fst (recordUpdate (manager e) currentKey currentLabel previousKey previousLabel s) = Inr ()
     \<and> calls (recorded e currentKey currentLabel previousKey previousLabel s)
         = calls (world (after_setup s))
           @ [(Metrics, ExecBatch
                (map (\<lambda>(k, f, d). BatchHincrby (getDeploymentKeyLabelsHash k) (Some f) d)
                   (recorded_fields currentKey currentLabel previousKey previousLabel)))]
     \<and> (list_all (\<lambda>(k, f, d). has_room (world s) (getDeploymentKeyLabelsHash k) f)
           (recorded_fields currentKey currentLabel previousKey previousLabel)
         \<and> counter (world s) (getDeploymentKeyLabelsHash k) field = Some n
        \<longrightarrow> counter (recorded e currentKey currentLabel previousKey previousLabel s)
              (getDeploymentKeyLabelsHash k) field
            = Some (n + recorded_change currentKey currentLabel previousKey previousLabel k field))"
  unfolding recorded_def
  by (intro conjI impI recordUpdate_resolves recordUpdate_calls recordUpdate_counters) simp_all

theorem recordUpdate_submits_one_batch_witness:
  "isEnabled (manager configured) \<and> metrics_available (initial Refused)
   \<and> list_all (\<lambda>(k, f, d). has_room (world (initial Refused)) (getDeploymentKeyLabelsHash k) f)
        (recorded_fields (js ''k1'') (js ''v2'') (Some (js ''k2'')) (Some (js ''v1'')))
   \<and> counter (world (initial Refused)) (getDeploymentKeyLabelsHash (js ''k2'')) (js ''v1:Active'') = Some 0
   \<and> calls (world (snd (recordUpdate (manager configured) (js ''k1'') (js ''v2'') (Some (js ''k2'')) (Some (js ''v1''))
        (initial Refused))))
       = calls (world (after_setup (initial Refused)))
         @ [(Metrics, ExecBatch
              [BatchHincrby (getDeploymentKeyLabelsHash (js ''k1'')) (Some (js ''v2:Active'')) 1,
               BatchHincrby (getDeploymentKeyLabelsHash (js ''k1'')) (Some (js ''v2:DeploymentSucceeded'')) 1,
               BatchHincrby (getDeploymentKeyLabelsHash (js ''k2'')) (Some (js ''v1:Active'')) (- 1)])]
   \<and> counter (world (snd (recordUpdate (manager configured) (js ''k1'') (js ''v2'') (Some (js ''k2'')) (Some (js ''v1''))
        (initial Refused)))) (getDeploymentKeyLabelsHash (js ''k2'')) (js ''v1:Active'') = Some (- 1)"
proof -
  have room: "list_all (\<lambda>(k, f, d). has_room (world (initial Refused)) (getDeploymentKeyLabelsHash k) f)
        (recorded_fields (js ''k1'') (js ''v2'') (Some (js ''k2'')) (Some (js ''v1'')))"
    by (simp add: recorded_fields_def has_room_initial)
  have change: "recorded_change (js ''k1'') (js ''v2'') (Some (js ''k2'')) (Some (js ''v1'')) (js ''k2'') (js ''v1:Active'') = - 1"
    by (simp add: recorded_change_def recorded_fields_def)
  have fields: "recorded_fields (js ''k1'') (js ''v2'') (Some (js ''k2'')) (Some (js ''v1''))
      = [(js ''k1'', js ''v2:Active'', 1), (js ''k1'', js ''v2:DeploymentSucceeded'', 1), (js ''k2'', js ''v1:Active'', - 1)]"
    by (simp add: recorded_fields_def)
  show ?thesis
    using room manager_configured initial_available [of Refused]
      counter_initial [of Refused "getDeploymentKeyLabelsHash (js ''k2'')" "js ''v1:Active''"]
      recordUpdate_submits_one_batch [where e = configured and s = "initial Refused"
        and currentKey = "js ''k1''" and currentLabel = "js ''v2''" and previousKey = "Some (js ''k2'')"
        and previousLabel = "Some (js ''v1'')" and k = "js ''k2''" and field = "js ''v1:Active''" and n = 0]
    by (simp add: change fields)
qed

text \<open>
  C1 as stated fails for the empty current label: the field :Active of the hash of the
  current deployment is not incremented, whether the client refuses the null field that
  is sent in its place or sends it as "null"; the field :DeploymentSucceeded is.
\<close>

theorem empty_label_counterexample:
  "counter (world (initial Refused)) (getDeploymentKeyLabelsHash (js ''k1'')) (js '':Active'') = Some 0
   \<and> counter (world (snd (recordUpdate (manager configured) (js ''k1'') [] None None (initial Refused))))
        (getDeploymentKeyLabelsHash (js ''k1'')) (js '':Active'') = Some 0
   \<and> counter (world (snd (recordUpdate (manager configured) (js ''k1'') [] None None (initial Stringified))))
        (getDeploymentKeyLabelsHash (js ''k1'')) (js '':Active'') = Some 0
   \<and> counter (world (snd (recordUpdate (manager configured) (js ''k1'') [] None None (initial Refused))))
        (getDeploymentKeyLabelsHash (js ''k1'')) (js '':DeploymentSucceeded'') = Some 1"
  by code_simp

text \<open>
  The batch is not all or nothing on this store: a command of it that fails leaves the
  others in effect, and recordUpdate resolves all the same. Here the succeeded count of
  the label holds no integer.
\<close>

lemma recordUpdate_commits_in_part:
  defines "before \<equiv> store_with METRICS_DB (getDeploymentKeyLabelsHash (js ''k1''))
                      [(js ''v2:DeploymentSucceeded'', js ''many'')]"
  defines "after \<equiv> snd (recordUpdate (manager configured) (js ''k1'') (js ''v2'') (Some (js ''k2'')) (Some (js ''v1''))
                          before)"
  shows "fst (recordUpdate (manager configured) (js ''k1'') (js ''v2'') (Some (js ''k2'')) (Some (js ''v1'')) before)
           = Inr ()
         \<and> databases (world after) METRICS_DB (getDeploymentKeyLabelsHash (js ''k1''))
           = Some (HashValue [(js ''v2:DeploymentSucceeded'', js ''many''), (js ''v2:Active'', js ''1'')], None)
         \<and> databases (world after) METRICS_DB (getDeploymentKeyLabelsHash (js ''k2''))
           = Some (HashValue [(js ''v1:Active'', js ''-1'')], None)"
  unfolding before_def after_def by code_simp

section \<open>Metrics as numbers\<close>

lemma StringToNumber_white_space:
  assumes "list_all isStrWhiteSpaceChar v"
  shows "StringToNumber v = Finite 0"
proof -
  from assms have d: "dropWhile isStrWhiteSpaceChar v = []" by (simp add: list_all_iff)
  have "trimString v = []" unfolding trimString_def d by simp
  then show ?thesis by (simp add: StringToNumber_def)
qed

lemma getMetricsWithDeploymentKey_reference:
  assumes en: "isEnabled (manager e)" and av: "metrics_available s"
    and h: "databases (world s) METRICS_DB (getDeploymentKeyLabelsHash deploymentKey)
              = Some (HashValue h, t)"
    and ne: "h \<noteq> []"
  shows "fst (getMetricsWithDeploymentKey (manager e) deploymentKey s)
         = Inr (Some (map (\<lambda>(metricField, v).
                  (metricField, if \<not> isNaN v then JSNumber (StringToNumber v) else JSString v)) h))"
proof -
  let ?w = "world (after_setup s)"
  have "databases ?w (selected ?w Metrics) (getDeploymentKeyLabelsHash deploymentKey)
      = Some (HashValue h, t)"
    using h by (simp add: selected_after_setup [OF av] databases_after_setup labels_hash_not_health)
  then have "invoke (hgetall (node_redis Metrics) (getDeploymentKeyLabelsHash deploymentKey))
               (after_setup s)
      = (Inr (Some h), (after_setup s)\<lparr>world := snd (hgetall (node_redis Metrics)
             (getDeploymentKeyLabelsHash deploymentKey) ?w)\<rparr>)"
    using ne by (simp add: invoke_def node_redis_def call_def redis_hgetall_def)
  then have chain: "then_p (ensureMetricsSetup (manager e))
        (\<lambda>_. safeCall (manager e) (metricsClient (manager e))
                (\<lambda>c. hgetall c (getDeploymentKeyLabelsHash deploymentKey))) s
      = (Inr (Some h), (after_setup s)\<lparr>world := snd (hgetall (node_redis Metrics)
             (getDeploymentKeyLabelsHash deploymentKey) ?w)\<rparr>)"
    using metrics_call [OF en av, of "\<lambda>c. hgetall c (getDeploymentKeyLabelsHash deploymentKey)"]
    by simp
  show ?thesis
    unfolding getMetricsWithDeploymentKey_def
    by (simp add: catch_p_def q_def
        then_p_def [of "then_p (ensureMetricsSetup (manager e))
          (\<lambda>_. safeCall (manager e) (metricsClient (manager e))
                  (\<lambda>c. hgetall c (getDeploymentKeyLabelsHash deploymentKey)))"] chain)
qed


text \<open>A string that starts with no character of a numeric literal is no number.\<close>

lemma isNaN_no_literal:
  assumes t: "trimString v = c # r" and d: "\<not> isDigitOfBase 10 c"
    and c: "c \<notin> set (js ''+-.I'')"
  shows "isNaN v"
proof -
  from c have sign: "c \<noteq> codeUnit CHR ''+''" "c \<noteq> codeUnit CHR ''-''"
    and dot: "c \<noteq> codeUnit CHR ''.''" and i: "c \<noteq> codeUnit CHR ''I''"
    by (simp_all add: js_simps)
  have "isDigitOfBase 10 (codeUnit CHR ''0'')" by (simp add: isDigitOfBase_def digitValue_literal)
  with d have zero: "c \<noteq> codeUnit CHR ''0''" by auto
  have nd: "nonDecimalIntegerLiteral (c # r) = None"
    using zero by (simp add: nonDecimalIntegerLiteral_def split: list.splits)
  from i have inf: "c # r \<noteq> js ''Infinity''" by (auto simp: js_simps)
  have "strUnsignedDecimalLiteral (c # r) = NaN"
    using d dot inf by (simp add: strUnsignedDecimalLiteral_def Let_def)
  then have "strDecimalLiteral (c # r) = NaN" using sign by (simp add: strDecimalLiteral_def)
  then show ?thesis by (simp add: isNaN_def StringToNumber_def t nd)
qed

text \<open>What the language makes of some strings.\<close>

lemmas literal_simps = js_def codeUnit_def StringToNumber_def trimString_def isStrWhiteSpaceChar_def
  nonDecimalIntegerLiteral_def strDecimalLiteral_def strUnsignedDecimalLiteral_def exponentPart_def
  signedInteger_def digitsOfBase_def digitsValue_def isDigitOfBase_def digitValue_def Let_def

lemma reading_fraction: "StringToNumber (js ''1.5'') = Finite (3 / 2)"
proof -
  have "StringToNumber (js ''1.5'') = RoundMVResult (3 / 2)" by (simp add: literal_simps)
  then show ?thesis by (simp add: RoundMVResult_exact [where e = 0 and m = "3 * 2 ^ 51"])
qed

lemma reading_tenth:
  "StringToNumber (js ''0.1'') = Finite (3602879701896397 / 36028797018963968)"
proof -
  have "StringToNumber (js ''0.1'') = RoundMVResult (1 / 10)" by (simp add: literal_simps)
  moreover have "roundTiesToEven (1 / 10 / 2 powi (- 4 - 52)) = 7205759403792794"
    by (rule roundTiesToEven_eqI) simp
  ultimately show ?thesis by (simp add: RoundMVResult_normal [where e = "- 4"])
qed

lemma reading_exponent: "StringToNumber (js ''1e3'') = Finite 1000"
proof -
  have "StringToNumber (js ''1e3'') = RoundMVResult (of_int 1000)" by (simp add: literal_simps)
  then show ?thesis using RoundMVResult_of_int [of 1000] by simp
qed

lemma reading_hexadecimal: "StringToNumber (js ''0x1F'') = Finite 31"
proof -
  have "StringToNumber (js ''0x1F'') = RoundMVResult (of_int 31)" by (simp add: literal_simps)
  then show ?thesis using RoundMVResult_of_int [of 31] by simp
qed

lemma reading_octal: "StringToNumber (js ''0o17'') = Finite 15"
proof -
  have "StringToNumber (js ''0o17'') = RoundMVResult (of_int 15)" by (simp add: literal_simps)
  then show ?thesis using RoundMVResult_of_int [of 15] by simp
qed

lemma reading_binary: "StringToNumber (js ''0b101'') = Finite 5"
proof -
  have "StringToNumber (js ''0b101'') = RoundMVResult (of_int 5)" by (simp add: literal_simps)
  then show ?thesis using RoundMVResult_of_int [of 5] by simp
qed

lemma reading_Infinity:
  "StringToNumber (js ''Infinity'') = PosInfinity"
  "StringToNumber (js ''-Infinity'') = NegInfinity"
  by (simp_all add: literal_simps negate_def)

lemma reading_too_large: "StringToNumber (js ''1e400'') = PosInfinity"
proof -
  have "StringToNumber (js ''1e400'') = RoundMVResult (10 ^ 400)" by (simp add: literal_simps)
  then show ?thesis by (simp add: RoundMVResult_overflow)
qed

lemma reading_too_small: "StringToNumber (js ''1e-400'') = Finite 0"
proof -
  have "StringToNumber (js ''1e-400'') = RoundMVResult (1 / 10 ^ 400)"
    by (simp add: literal_simps power_int_minus_divide)
  then show ?thesis by (simp add: RoundMVResult_underflow)
qed

lemma reading_negative_zero: "StringToNumber (js ''-0'') = NegZero"
  by (simp add: literal_simps RoundMVResult_def negate_def)

lemma reading_unsafe_integer:
  "StringToNumber (js ''9007199254740993'') = Finite 9007199254740992"
proof -
  have "StringToNumber (js ''9007199254740993'') = RoundMVResult (2 ^ 53 + 1)"
    by (simp add: literal_simps)
  moreover have "roundTiesToEven ((2 ^ 53 + 1) / 2 powi (53 - 52))
      = (if even ((2::int) ^ 52) then 2 ^ 52 else 2 ^ 52 + 1)"
    by (rule roundTiesToEven_tie) simp
  ultimately show ?thesis by (simp add: RoundMVResult_normal [where e = 53])
qed

lemma reading_padded: "StringToNumber (0xFEFF # js '' 12'' @ [0x00A0, 0x2003]) = Finite 12"
proof -
  have "StringToNumber (0xFEFF # js '' 12'' @ [0x00A0, 0x2003]) = RoundMVResult (of_int 12)"
    by (simp add: literal_simps)
  then show ?thesis using RoundMVResult_of_int [of 12] by simp
qed

lemma reading_no_number:
  "StringToNumber (js ''12abc'') = NaN" "StringToNumber (js ''1 2'') = NaN"
  "StringToNumber (js ''0x'') = NaN" "StringToNumber (js ''1e'') = NaN"
  "StringToNumber (js ''.'') = NaN" "StringToNumber (js ''1,5'') = NaN"
  "StringToNumber (js ''-0x10'') = NaN" "StringToNumber (js ''infinity'') = NaN"
  by (simp_all add: literal_simps negate_def)

lemmas readings = reading_fraction reading_tenth reading_exponent reading_hexadecimal
  reading_octal reading_binary reading_Infinity reading_too_large reading_too_small
  reading_negative_zero reading_unsafe_integer reading_no_number

text \<open>
  C8, as amended: for a deployment whose hash of label counters exists, on an available
  store, getMetricsWithDeploymentKey resolves to the hash, field by field in its order,
  with the value of a field given as the number the language reads the stored string as
  whenever that is not NaN, and as the stored string otherwise. The decimal writing of
  an integer of magnitude at most 2 ^ 53 comes back as that integer. A string of white
  space only comes back as 0. A string whose first character after the white space is
  not a digit, a sign, a dot or the letter I comes back unchanged. Of the other strings,
  1.5 comes back as 3/2, 0.1 as the double nearest to it, 1e3 as 1000, 0x1F as 31, 0o17
  as 15, 0b101 as 5, Infinity and -Infinity as the infinities, 1e400 as Infinity, 1e-400
  as 0, -0 as the negative zero and 9007199254740993 as 9007199254740992; and 12abc,
  1 2, 0x, 1e, the single dot, 1,5, -0x10 and infinity come back unchanged.
\<close>

theorem metrics_are_read_as_the_language_reads_numbers:
  "isEnabled (manager e) \<and> metrics_available s
   \<and> databases (world s) METRICS_DB (getDeploymentKeyLabelsHash deploymentKey)
       = Some (HashValue h, t) \<and> h \<noteq> [] \<longrightarrow>
     (\<exists>m. fst (getMetricsWithDeploymentKey (manager e) deploymentKey s) = Inr (Some m)
        \<and> map fst m = map fst h
        \<and> (\<forall>i < length h.
              (isNaN (snd (h ! i)) \<longrightarrow> snd (m ! i) = JSString (snd (h ! i)))
              \<and> (\<not> isNaN (snd (h ! i))
                   \<longrightarrow> snd (m ! i) = JSNumber (StringToNumber (snd (h ! i))))
              \<and> (\<forall>n. snd (h ! i) = show_int n \<and> \<bar>n\<bar> \<le> 2 ^ 53
                   \<longrightarrow> snd (m ! i) = JSNumber (Finite (of_int n)))
              \<and> (list_all isStrWhiteSpaceChar (snd (h ! i))
                   \<longrightarrow> snd (m ! i) = JSNumber (Finite 0))
              \<and> (\<forall>c r. trimString (snd (h ! i)) = c # r \<and> \<not> isDigitOfBase 10 c
                        \<and> c \<notin> set (js ''+-.I'')
                   \<longrightarrow> snd (m ! i) = JSString (snd (h ! i)))
              \<and> (\<forall>(v, x) \<in> set
                    [(js ''1.5'', Finite (3 / 2)),
                     (js ''0.1'', Finite (3602879701896397 / 36028797018963968)),
                     (js ''1e3'', Finite 1000), (js ''0x1F'', Finite 31),
                     (js ''0o17'', Finite 15), (js ''0b101'', Finite 5),
                     (js ''Infinity'', PosInfinity), (js ''-Infinity'', NegInfinity),
                     (js ''1e400'', PosInfinity), (js ''1e-400'', Finite 0),
                     (js ''-0'', NegZero),
                     (js ''9007199254740993'', Finite 9007199254740992)].
                    snd (h ! i) = v \<longrightarrow> snd (m ! i) = JSNumber x)
              \<and> (\<forall>v \<in> set
                    [js ''12abc'', js ''1 2'', js ''0x'', js ''1e'', js ''.'', js ''1,5'',
                     js ''-0x10'', js ''infinity''].
                    snd (h ! i) = v \<longrightarrow> snd (m ! i) = JSString v)))"
proof (intro impI, elim conjE)
  assume en: "isEnabled (manager e)" and av: "metrics_available s"
    and h: "databases (world s) METRICS_DB (getDeploymentKeyLabelsHash deploymentKey)
       = Some (HashValue h, t)" and ne: "h \<noteq> []"
  define val where
    "val v = (if \<not> isNaN v then JSNumber (StringToNumber v) else JSString v)" for v
  let ?m = "map (\<lambda>(metricField, v). (metricField, val v)) h"
  have run: "fst (getMetricsWithDeploymentKey (manager e) deploymentKey s) = Inr (Some ?m)"
    using getMetricsWithDeploymentKey_reference [OF en av h ne] by (simp add: val_def)
  have names: "map fst ?m = map fst h" by (simp add: case_prod_unfold)
  have at: "snd (?m ! i) = val (snd (h ! i))" if "i < length h" for i
    using that by (simp add: case_prod_unfold)
  have nan: "isNaN v \<longrightarrow> val v = JSString v" for v by (simp add: val_def)
  have num: "\<not> isNaN v \<longrightarrow> val v = JSNumber (StringToNumber v)" for v by (simp add: val_def)
  have int: "\<forall>n. v = show_int n \<and> \<bar>n\<bar> \<le> 2 ^ 53 \<longrightarrow> val v = JSNumber (Finite (of_int n))" for v
    by (simp add: val_def isNaN_show_int StringToNumber_safe_integer)
  have blank: "list_all isStrWhiteSpaceChar v \<longrightarrow> val v = JSNumber (Finite 0)" for v
    by (simp add: val_def isNaN_def StringToNumber_white_space)
  have other: "\<forall>c r. trimString v = c # r \<and> \<not> isDigitOfBase 10 c \<and> c \<notin> set (js ''+-.I'')
                   \<longrightarrow> val v = JSString v" for v
    using isNaN_no_literal [of v] by (auto simp: val_def)
  have numbers: "\<forall>(w, x) \<in> set
                    [(js ''1.5'', Finite (3 / 2)),
                     (js ''0.1'', Finite (3602879701896397 / 36028797018963968)),
                     (js ''1e3'', Finite 1000), (js ''0x1F'', Finite 31),
                     (js ''0o17'', Finite 15), (js ''0b101'', Finite 5),
                     (js ''Infinity'', PosInfinity), (js ''-Infinity'', NegInfinity),
                     (js ''1e400'', PosInfinity), (js ''1e-400'', Finite 0),
                     (js ''-0'', NegZero),
                     (js ''9007199254740993'', Finite 9007199254740992)].
                    v = w \<longrightarrow> val v = JSNumber x" for v
    by (simp add: val_def isNaN_def readings)
  have strings: "\<forall>w \<in> set
                    [js ''12abc'', js ''1 2'', js ''0x'', js ''1e'', js ''.'', js ''1,5'',
                     js ''-0x10'', js ''infinity''].
                    v = w \<longrightarrow> val v = JSString w" for v
    by (simp add: val_def isNaN_def readings)
  show "\<exists>m. fst (getMetricsWithDeploymentKey (manager e) deploymentKey s) = Inr (Some m)
        \<and> map fst m = map fst h
        \<and> (\<forall>i < length h.
              (isNaN (snd (h ! i)) \<longrightarrow> snd (m ! i) = JSString (snd (h ! i)))
              \<and> (\<not> isNaN (snd (h ! i))
                   \<longrightarrow> snd (m ! i) = JSNumber (StringToNumber (snd (h ! i))))
              \<and> (\<forall>n. snd (h ! i) = show_int n \<and> \<bar>n\<bar> \<le> 2 ^ 53
                   \<longrightarrow> snd (m ! i) = JSNumber (Finite (of_int n)))
              \<and> (list_all isStrWhiteSpaceChar (snd (h ! i))
                   \<longrightarrow> snd (m ! i) = JSNumber (Finite 0))
              \<and> (\<forall>c r. trimString (snd (h ! i)) = c # r \<and> \<not> isDigitOfBase 10 c
                        \<and> c \<notin> set (js ''+-.I'')
                   \<longrightarrow> snd (m ! i) = JSString (snd (h ! i)))
              \<and> (\<forall>(v, x) \<in> set
                    [(js ''1.5'', Finite (3 / 2)),
                     (js ''0.1'', Finite (3602879701896397 / 36028797018963968)),
                     (js ''1e3'', Finite 1000), (js ''0x1F'', Finite 31),
                     (js ''0o17'', Finite 15), (js ''0b101'', Finite 5),
                     (js ''Infinity'', PosInfinity), (js ''-Infinity'', NegInfinity),
                     (js ''1e400'', PosInfinity), (js ''1e-400'', Finite 0),
                     (js ''-0'', NegZero),
                     (js ''9007199254740993'', Finite 9007199254740992)].
                    snd (h ! i) = v \<longrightarrow> snd (m ! i) = JSNumber x)
              \<and> (\<forall>v \<in> set
                    [js ''12abc'', js ''1 2'', js ''0x'', js ''1e'', js ''.'', js ''1,5'',
                     js ''-0x10'', js ''infinity''].
                    snd (h ! i) = v \<longrightarrow> snd (m ! i) = JSString v))"
  proof (intro exI [of _ ?m] conjI allI impI run names)
    fix i
    assume i: "i < length h"
    note v = at [OF i]
    show "snd (?m ! i) = JSString (snd (h ! i))" if "isNaN (snd (h ! i))"
      using that nan by (simp add: v)
    show "snd (?m ! i) = JSNumber (StringToNumber (snd (h ! i)))" if "\<not> isNaN (snd (h ! i))"
      using that num by (simp add: v)
    show "snd (?m ! i) = JSNumber (Finite (of_int n))"
      if "snd (h ! i) = show_int n \<and> \<bar>n\<bar> \<le> 2 ^ 53" for n
      using that int [of "snd (h ! i)"] unfolding v by blast
    show "snd (?m ! i) = JSNumber (Finite 0)" if "list_all isStrWhiteSpaceChar (snd (h ! i))"
      using that blank by (simp add: v)
    show "snd (?m ! i) = JSString (snd (h ! i))"
      if "trimString (snd (h ! i)) = c # r \<and> \<not> isDigitOfBase 10 c \<and> c \<notin> set (js ''+-.I'')"
      for c r
      using that other [of "snd (h ! i)"] unfolding v by blast
    show "\<forall>(v, x) \<in> set
                    [(js ''1.5'', Finite (3 / 2)),
                     (js ''0.1'', Finite (3602879701896397 / 36028797018963968)),
                     (js ''1e3'', Finite 1000), (js ''0x1F'', Finite 31),
                     (js ''0o17'', Finite 15), (js ''0b101'', Finite 5),
                     (js ''Infinity'', PosInfinity), (js ''-Infinity'', NegInfinity),
                     (js ''1e400'', PosInfinity), (js ''1e-400'', Finite 0),
                     (js ''-0'', NegZero),
                     (js ''9007199254740993'', Finite 9007199254740992)].
                    snd (h ! i) = v \<longrightarrow> snd (?m ! i) = JSNumber x"
      unfolding v by (rule numbers)
    show "\<forall>v \<in> set
                    [js ''12abc'', js ''1 2'', js ''0x'', js ''1e'', js ''.'', js ''1,5'',
                     js ''-0x10'', js ''infinity''].
                    snd (h ! i) = v \<longrightarrow> snd (?m ! i) = JSString v"
      unfolding v by (rule strings)
  qed
qed

lemma store_with_available: "metrics_available (store_with METRICS_DB key h)"
  by (simp add: metrics_available_def store_with_def)

lemma store_with_hash:
  "databases (world (store_with METRICS_DB key h)) METRICS_DB key = Some (HashValue h, None)"
  by (simp add: store_with_def)

theorem metrics_are_read_as_the_language_reads_numbers_witness:
  "isEnabled (manager configured)
   \<and> metrics_available (store_with METRICS_DB (getDeploymentKeyLabelsHash (js ''dep1''))
        [(js ''v3:Downloaded'', js ''3''), (js ''note'', js ''n/a''), (js ''peak'', js ''1e400'')])
   \<and> fst (getMetricsWithDeploymentKey (manager configured) (js ''dep1'')
        (store_with METRICS_DB (getDeploymentKeyLabelsHash (js ''dep1''))
           [(js ''v3:Downloaded'', js ''3''), (js ''note'', js ''n/a''),
            (js ''peak'', js ''1e400'')]))
       = Inr (Some [(js ''v3:Downloaded'', JSNumber (Finite 3)),
                    (js ''note'', JSString (js ''n/a'')),
                    (js ''peak'', JSNumber PosInfinity)])"
proof -
  let ?h = "[(js ''v3:Downloaded'', js ''3''), (js ''note'', js ''n/a''),
             (js ''peak'', js ''1e400'')]"
  let ?s = "store_with METRICS_DB (getDeploymentKeyLabelsHash (js ''dep1'')) ?h"
  have three: "js ''3'' = show_int 3"
    by (simp add: show_int_def show_nat_small js_def codeUnit_def)
  have trim: "trimString (js ''n/a'') = codeUnit CHR ''n'' # js ''/a''"
    by (simp add: trimString_def js_def codeUnit_def isStrWhiteSpaceChar_def)
  have n: "\<not> isDigitOfBase 10 (codeUnit CHR ''n'')" "codeUnit CHR ''n'' \<notin> set (js ''+-.I'')"
    by (simp_all add: isDigitOfBase_def digitValue_literal js_simps)
  from manager_configured store_with_available [of "getDeploymentKeyLabelsHash (js ''dep1'')" ?h]
    store_with_hash [of "getDeploymentKeyLabelsHash (js ''dep1'')" ?h]
    metrics_are_read_as_the_language_reads_numbers [where e = configured and s = ?s
      and deploymentKey = "js ''dep1''" and h = ?h and t = None]
  obtain m where m: "fst (getMetricsWithDeploymentKey (manager configured) (js ''dep1'') ?s)
      = Inr (Some m)"
    and names: "map fst m = map fst ?h"
    and vals: "\<And>i. i < length ?h \<Longrightarrow>
              (\<forall>n. snd (?h ! i) = show_int n \<and> \<bar>n\<bar> \<le> 2 ^ 53
                   \<longrightarrow> snd (m ! i) = JSNumber (Finite (of_int n)))
              \<and> (\<forall>c r. trimString (snd (?h ! i)) = c # r \<and> \<not> isDigitOfBase 10 c
                        \<and> c \<notin> set (js ''+-.I'')
                   \<longrightarrow> snd (m ! i) = JSString (snd (?h ! i)))
              \<and> (snd (?h ! i) = js ''1e400'' \<longrightarrow> snd (m ! i) = JSNumber PosInfinity)"
    by auto
  from names obtain x y z where
    xyz: "m = [(js ''v3:Downloaded'', x), (js ''note'', y), (js ''peak'', z)]"
    by (cases m; cases "tl m"; cases "tl (tl m)"; cases "tl (tl (tl m))") auto
  from vals [of 0]
  have "\<forall>n. js ''3'' = show_int n \<and> \<bar>n\<bar> \<le> 2 ^ 53
          \<longrightarrow> snd (m ! 0) = JSNumber (Finite (of_int n))"
    by simp
  then have "js ''3'' = show_int 3 \<and> \<bar>3\<bar> \<le> (2 :: int) ^ 53
          \<longrightarrow> snd (m ! 0) = JSNumber (Finite (of_int 3))"
    by (rule spec)
  with three have x: "x = JSNumber (Finite 3)" by (simp add: xyz)
  from vals [of 1]
  have "\<forall>c r. trimString (js ''n/a'') = c # r \<and> \<not> isDigitOfBase 10 c
                        \<and> c \<notin> set (js ''+-.I'')
                   \<longrightarrow> snd (m ! 1) = JSString (js ''n/a'')"
    by simp
  with trim n have y: "y = JSString (js ''n/a'')" by (simp add: xyz)
  from vals [of 2] have z: "z = JSNumber PosInfinity" by (simp add: xyz)
  show ?thesis
    using m xyz x y z manager_configured store_with_available by simp
qed

text \<open>
  C8 as stated fails on a field whose stored string is empty: it is no number, and it
  comes back as the number 0, not as the string.
\<close>

theorem empty_metric_counterexample:
  "fst (getMetricsWithDeploymentKey (manager configured) (js ''dep1'')
         (store_with METRICS_DB (getDeploymentKeyLabelsHash (js ''dep1'')) [(js ''v1:Active'', [])]))
     = Inr (Some [(js ''v1:Active'', JSNumber (Finite 0))])"
  by code_simp

text \<open>
  C10: for a deployment whose hash of label counters exists, on an available store, a
  field whose stored string is empty or made of white space only (any of the white space
  characters and line terminators of the language) is no NaN for isNaN and comes back
  from getMetricsWithDeploymentKey as the number 0, not as the string.
\<close>

theorem blank_metric_is_zero:
  "isEnabled (manager e) \<and> metrics_available s
   \<and> databases (world s) METRICS_DB (getDeploymentKeyLabelsHash deploymentKey)
       = Some (HashValue h, t)
   \<and> i < length h \<and> list_all isStrWhiteSpaceChar (snd (h ! i)) \<longrightarrow>
     \<not> isNaN (snd (h ! i))
     \<and> (\<exists>m. fst (getMetricsWithDeploymentKey (manager e) deploymentKey s) = Inr (Some m)
          \<and> m ! i = (fst (h ! i), JSNumber (Finite 0)))"
proof (intro impI, elim conjE)
  assume en: "isEnabled (manager e)" and av: "metrics_available s"
    and h: "databases (world s) METRICS_DB (getDeploymentKeyLabelsHash deploymentKey)
       = Some (HashValue h, t)"
    and i: "i < length h" and blank: "list_all isStrWhiteSpaceChar (snd (h ! i))"
  from i have ne: "h \<noteq> []" by auto
  have zero: "StringToNumber (snd (h ! i)) = Finite 0"
    using blank by (rule StringToNumber_white_space)
  then have nan: "\<not> isNaN (snd (h ! i))" by (simp add: isNaN_def)
  show "\<not> isNaN (snd (h ! i))
     \<and> (\<exists>m. fst (getMetricsWithDeploymentKey (manager e) deploymentKey s) = Inr (Some m)
          \<and> m ! i = (fst (h ! i), JSNumber (Finite 0)))"
    using i nan zero
    by (simp add: getMetricsWithDeploymentKey_reference [OF en av h ne] case_prod_unfold)
qed

theorem blank_metric_is_zero_witness:
  "isEnabled (manager configured)
   \<and> metrics_available (store_with METRICS_DB (getDeploymentKeyLabelsHash (js ''dep1''))
        [(js ''v1:Active'', [0x0020, 0x00A0, 0xFEFF, 0x3000, 0x2028, 0x0009])])
   \<and> list_all isStrWhiteSpaceChar [0x0020, 0x00A0, 0xFEFF, 0x3000, 0x2028, 0x0009]
   \<and> \<not> isNaN [0x0020, 0x00A0, 0xFEFF, 0x3000, 0x2028, 0x0009]
   \<and> (\<exists>m. fst (getMetricsWithDeploymentKey (manager configured) (js ''dep1'')
        (store_with METRICS_DB (getDeploymentKeyLabelsHash (js ''dep1''))
           [(js ''v1:Active'', [0x0020, 0x00A0, 0xFEFF, 0x3000, 0x2028, 0x0009])]))
          = Inr (Some m)
        \<and> m ! 0 = (js ''v1:Active'', JSNumber (Finite 0)))"
proof -
  let ?v = "[0x0020, 0x00A0, 0xFEFF, 0x3000, 0x2028, 0x0009] :: jsstring"
  let ?h = "[(js ''v1:Active'', ?v)]"
  let ?s = "store_with METRICS_DB (getDeploymentKeyLabelsHash (js ''dep1'')) ?h"
  have blank: "list_all isStrWhiteSpaceChar ?v" by (simp add: isStrWhiteSpaceChar_def)
  from blank manager_configured store_with_available [of "getDeploymentKeyLabelsHash (js ''dep1'')" ?h]
    store_with_hash [of "getDeploymentKeyLabelsHash (js ''dep1'')" ?h]
    blank_metric_is_zero [where e = configured and s = ?s and deploymentKey = "js ''dep1''"
      and h = ?h and t = None and i = 0]
  have "\<not> isNaN ?v
     \<and> (\<exists>m. fst (getMetricsWithDeploymentKey (manager configured) (js ''dep1'') ?s) = Inr (Some m)
          \<and> m ! 0 = (js ''v1:Active'', JSNumber (Finite 0)))"
    by simp
  with blank manager_configured store_with_available show ?thesis by simp
qed

section \<open>The set-up, call by call\<close>

lemma memo_invariantD:
  assumes "memo_invariant t"
  shows "\<And>p. p < length (attempts t) \<Longrightarrow> attempts t ! p \<noteq> Rejected \<Longrightarrow> memo t = Some p"
    and "\<And>p. memo t = Some p \<Longrightarrow> p < length (attempts t)"
    and "\<And>p. memo t = Some p \<Longrightarrow> attempts t ! p \<noteq> Rejected"
    and "attempts t \<noteq> [] \<Longrightarrow> enabled t"
  using assms unfolding memo_invariant_def by blast+

lemma memo_invariantI:
  assumes "\<And>p. p < length (attempts t) \<Longrightarrow> attempts t ! p \<noteq> Rejected \<Longrightarrow> memo t = Some p"
    and "\<And>p. memo t = Some p \<Longrightarrow> p < length (attempts t) \<and> attempts t ! p \<noteq> Rejected"
    and "attempts t \<noteq> [] \<Longrightarrow> enabled t"
  shows "memo_invariant t"
  using assms unfolding memo_invariant_def by blast

lemma memo_invariant_call:
  assumes "memo_invariant t"
  shows "memo_invariant (snd (ensureMetricsSetup_call r t))"
proof (cases "enabled t \<and> memo t = None \<and> r")
  case False
  then have "snd (ensureMetricsSetup_call r t) = t"
    by (cases "memo t") (simp_all add: ensureMetricsSetup_call_def)
  with assms show ?thesis by simp
next
  case True
  then have new: "snd (ensureMetricsSetup_call r t)
      = t\<lparr>memo := Some (length (attempts t)), attempts := attempts t @ [Pending]\<rparr>"
    by (simp add: ensureMetricsSetup_call_def)
  have old: "attempts t ! p = Rejected" if "p < length (attempts t)" for p
    using memo_invariantD(1) [OF assms that] True by (cases "attempts t ! p = Rejected") simp_all
  show ?thesis
    unfolding new
  proof (rule memo_invariantI)
    fix p
    assume "p < length (attempts (t\<lparr>memo := Some (length (attempts t)),
                                      attempts := attempts t @ [Pending]\<rparr>))"
      and "attempts (t\<lparr>memo := Some (length (attempts t)),
                        attempts := attempts t @ [Pending]\<rparr>) ! p \<noteq> Rejected"
    then have "p = length (attempts t)"
      using old [of p] by (cases "p < length (attempts t)") (simp_all add: nth_append)
    then show "memo (t\<lparr>memo := Some (length (attempts t)),
                        attempts := attempts t @ [Pending]\<rparr>) = Some p"
      by simp
  next
    fix p
    assume "memo (t\<lparr>memo := Some (length (attempts t)),
                     attempts := attempts t @ [Pending]\<rparr>) = Some p"
    then show "p < length (attempts (t\<lparr>memo := Some (length (attempts t)),
                                          attempts := attempts t @ [Pending]\<rparr>))
        \<and> attempts (t\<lparr>memo := Some (length (attempts t)),
                       attempts := attempts t @ [Pending]\<rparr>) ! p \<noteq> Rejected"
      by auto
  next
    show "enabled (t\<lparr>memo := Some (length (attempts t)), attempts := attempts t @ [Pending]\<rparr>)"
      using True by simp
  qed
qed

lemma memo_invariant_settle:
  assumes "memo_invariant t"
  shows "memo_invariant (settle p ok t)"
proof (cases "p < length (attempts t) \<and> attempts t ! p = Pending")
  case False
  then have "settle p ok t = t" by (auto simp: settle_def)
  with assms show ?thesis by simp
next
  case True
  then have len: "p < length (attempts t)" and pend: "attempts t ! p = Pending" by simp_all
  have m: "memo t = Some p"
    using memo_invariantD(1) [OF assms len] pend by simp
  have others: "attempts t ! i = Rejected" if "i < length (attempts t)" "i \<noteq> p" for i
    using memo_invariantD(1) [OF assms that(1)] m that(2)
    by (cases "attempts t ! i = Rejected") simp_all
  from len have "attempts t \<noteq> []" by auto
  then have en: "enabled t" by (rule memo_invariantD(4) [OF assms])
  show ?thesis
  proof (cases ok)
    case True
    have s: "settle p ok t = t\<lparr>attempts := (attempts t)[p := Fulfilled]\<rparr>"
      using True len pend by (simp add: settle_def)
    show ?thesis
      unfolding s
    proof (rule memo_invariantI)
      fix i
      assume "i < length (attempts (t\<lparr>attempts := (attempts t)[p := Fulfilled]\<rparr>))"
        and "attempts (t\<lparr>attempts := (attempts t)[p := Fulfilled]\<rparr>) ! i \<noteq> Rejected"
      then have "i = p" using others [of i] by (cases "i = p") simp_all
      with m show "memo (t\<lparr>attempts := (attempts t)[p := Fulfilled]\<rparr>) = Some i" by simp
    next
      fix i
      assume "memo (t\<lparr>attempts := (attempts t)[p := Fulfilled]\<rparr>) = Some i"
      with m have "i = p" by simp
      with len show "i < length (attempts (t\<lparr>attempts := (attempts t)[p := Fulfilled]\<rparr>))
          \<and> attempts (t\<lparr>attempts := (attempts t)[p := Fulfilled]\<rparr>) ! i \<noteq> Rejected"
        by simp
    next
      show "enabled (t\<lparr>attempts := (attempts t)[p := Fulfilled]\<rparr>)" using en by simp
    qed
  next
    case False
    have s: "settle p ok t = t\<lparr>memo := None, attempts := (attempts t)[p := Rejected]\<rparr>"
      using False len pend by (simp add: settle_def)
    show ?thesis
      unfolding s
    proof (rule memo_invariantI)
      fix i
      assume "i < length (attempts (t\<lparr>memo := None, attempts := (attempts t)[p := Rejected]\<rparr>))"
        and "attempts (t\<lparr>memo := None, attempts := (attempts t)[p := Rejected]\<rparr>) ! i \<noteq> Rejected"
      then have False using others [of i] len by (cases "i = p") simp_all
      then show "memo (t\<lparr>memo := None, attempts := (attempts t)[p := Rejected]\<rparr>) = Some i" ..
    next
      fix i
      assume "memo (t\<lparr>memo := None, attempts := (attempts t)[p := Rejected]\<rparr>) = Some i"
      then show "i < length (attempts (t\<lparr>memo := None, attempts := (attempts t)[p := Rejected]\<rparr>))
          \<and> attempts (t\<lparr>memo := None, attempts := (attempts t)[p := Rejected]\<rparr>) ! i \<noteq> Rejected"
        by simp
    next
      show "enabled (t\<lparr>memo := None, attempts := (attempts t)[p := Rejected]\<rparr>)"
        using en by simp
    qed
  qed
qed

lemma memo_invariant_step: "memo_invariant t \<Longrightarrow> memo_invariant (step t ev)"
  by (cases ev) (simp_all add: memo_invariant_call memo_invariant_settle)

lemma memo_invariant_foldl: "memo_invariant t \<Longrightarrow> memo_invariant (foldl step t events)"
  by (induction events arbitrary: t) (simp_all add: memo_invariant_step)

lemma memo_invariant_run: "memo_invariant (run c events)"
  unfolding run_def by (rule memo_invariant_foldl) (simp add: memo_invariant_def)

lemma enabled_step: "enabled (step t ev) = enabled t"
  by (cases ev)
     (simp_all add: ensureMetricsSetup_call_def settle_def split: option.splits)

lemma enabled_foldl: "enabled (foldl step t events) = enabled t"
  by (induction events arbitrary: t) (simp_all add: enabled_step)

lemma enabled_run: "enabled (run c events) = c"
  by (simp add: run_def enabled_foldl)

lemma filter_at_most_one:
  assumes "\<And>i. i < length xs \<Longrightarrow> i \<noteq> p \<Longrightarrow> \<not> P (xs ! i)"
  shows "length (filter P xs) \<le> 1"
  using assms
proof (induction xs arbitrary: p)
  case Nil
  then show ?case by simp
next
  case (Cons x xs)
  show ?case
  proof (cases p)
    case 0
    have "\<not> P (xs ! i)" if "i < length xs" for i
      using Cons.prems [of "Suc i"] that 0 by simp
    then have "\<not> P y" if "y \<in> set xs" for y
      using that by (metis in_set_conv_nth)
    then have "filter P xs = []" by (simp add: filter_empty_conv)
    then show ?thesis by simp
  next
    case (Suc p')
    have "\<not> P x" using Cons.prems [of 0] Suc by simp
    moreover have "length (filter P xs) \<le> 1"
    proof (rule Cons.IH [of p'])
      fix i assume "i < length xs" "i \<noteq> p'"
      then show "\<not> P (xs ! i)" using Cons.prems [of "Suc i"] Suc by simp
    qed
    ultimately show ?thesis by simp
  qed
qed

lemma memo_invariant_counts:
  assumes "memo_invariant t"
  shows "in_flight t \<le> 1" and "succeeded_setups t \<le> 1"
proof -
  define p where "p = (case memo t of None \<Rightarrow> 0 | Some m \<Rightarrow> m)"
  have p: "attempts t ! i = Rejected" if "i < length (attempts t)" "i \<noteq> p" for i
  proof (rule ccontr)
    assume "attempts t ! i \<noteq> Rejected"
    then have "memo t = Some i" by (rule memo_invariantD(1) [OF assms that(1)])
    with that(2) show False by (simp add: p_def)
  qed
  show "in_flight t \<le> 1"
    unfolding in_flight_def by (rule filter_at_most_one [of _ p]) (simp add: p)
  show "succeeded_setups t \<le> 1"
    unfolding succeeded_setups_def by (rule filter_at_most_one [of _ p]) (simp add: p)
qed

text \<open>
  C6: after any sequence of calls and settlements from the start of the process, at most
  one attempt is pending and at most one has ever succeeded; the promise that is
  memoized is one that is pending or has succeeded, every attempt that is pending or has
  succeeded is the memoized one, and a call made while it is memoized returns it and
  starts nothing. When the pending attempt fails the field is cleared, and the next
  call with a ready handle starts a new attempt and memoizes it.
\<close>

theorem setup_is_memoized:
  fixes is_configured :: bool and events :: "event list"
  defines "t \<equiv> run is_configured events"
  shows
  "in_flight t \<le> 1
   \<and> succeeded_setups t \<le> 1
   \<and> (memo t = Some p \<longrightarrow>
        p < length (attempts t)
        \<and> (attempts t ! p = Pending \<or> attempts t ! p = Fulfilled)
        \<and> ensureMetricsSetup_call metricsClient_ready t = (Memoized p, t))
   \<and> (p < length (attempts t) \<and> (attempts t ! p = Pending \<or> attempts t ! p = Fulfilled)
        \<longrightarrow> memo t = Some p)
   \<and> (p < length (attempts t) \<and> attempts t ! p = Pending \<longrightarrow>
        memo (settle p False t) = None
        \<and> in_flight (settle p False t) = 0
        \<and> ensureMetricsSetup_call True (settle p False t)
            = (Started (length (attempts t)),
               (settle p False t)\<lparr>memo := Some (length (attempts t)),
                                   attempts := attempts (settle p False t) @ [Pending]\<rparr>))"
proof -
  have inv: "memo_invariant t" unfolding t_def by (rule memo_invariant_run)
  have en: "enabled t" if "memo t = Some p" for p
  proof -
    from memo_invariantD(2) [OF inv that] have "attempts t \<noteq> []" by auto
    then show ?thesis by (rule memo_invariantD(4) [OF inv])
  qed
  have c1: "in_flight t \<le> 1" and c2: "succeeded_setups t \<le> 1"
    using memo_invariant_counts [OF inv] by simp_all
  have c3: "p < length (attempts t)
        \<and> (attempts t ! p = Pending \<or> attempts t ! p = Fulfilled)
        \<and> ensureMetricsSetup_call metricsClient_ready t = (Memoized p, t)"
    if m: "memo t = Some p"
  proof -
    from memo_invariantD(2,3) [OF inv m] have "p < length (attempts t)" "attempts t ! p \<noteq> Rejected"
      by simp_all
    moreover then have "attempts t ! p = Pending \<or> attempts t ! p = Fulfilled"
      by (cases "attempts t ! p") simp_all
    moreover have "ensureMetricsSetup_call metricsClient_ready t = (Memoized p, t)"
      using m en [OF m] by (simp add: ensureMetricsSetup_call_def)
    ultimately show ?thesis by simp
  qed
  have c4: "memo t = Some p"
    if "p < length (attempts t) \<and> (attempts t ! p = Pending \<or> attempts t ! p = Fulfilled)"
    using memo_invariantD(1) [OF inv, of p] that by auto
  have c5: "memo (settle p False t) = None
        \<and> in_flight (settle p False t) = 0
        \<and> ensureMetricsSetup_call True (settle p False t)
            = (Started (length (attempts t)),
               (settle p False t)\<lparr>memo := Some (length (attempts t)),
                                   attempts := attempts (settle p False t) @ [Pending]\<rparr>)"
    if pend: "p < length (attempts t) \<and> attempts t ! p = Pending"
  proof -
    from pend have m: "memo t = Some p" using c4 by simp
    have s: "settle p False t = t\<lparr>memo := None, attempts := (attempts t)[p := Rejected]\<rparr>"
      using pend by (simp add: settle_def)
    have others: "attempts t ! i = Rejected" if "i < length (attempts t)" "i \<noteq> p" for i
      using memo_invariantD(1) [OF inv that(1)] m that(2)
      by (cases "attempts t ! i = Rejected") simp_all
    have "x = Rejected" if "x \<in> set ((attempts t)[p := Rejected])" for x
    proof -
      from that obtain i where "i < length ((attempts t)[p := Rejected])"
        "(attempts t)[p := Rejected] ! i = x"
        by (metis in_set_conv_nth)
      then show ?thesis using others [of i] by (cases "i = p") simp_all
    qed
    then have "x \<noteq> Pending" if "x \<in> set ((attempts t)[p := Rejected])" for x
      using that by blast
    then have "filter (\<lambda>x. x = Pending) ((attempts t)[p := Rejected]) = []"
      by (simp add: filter_empty_conv)
    then have "in_flight (settle p False t) = 0" by (simp add: s in_flight_def)
    moreover have "ensureMetricsSetup_call True (settle p False t)
            = (Started (length (attempts t)),
               (settle p False t)\<lparr>memo := Some (length (attempts t)),
                                   attempts := attempts (settle p False t) @ [Pending]\<rparr>)"
      using en [OF m] by (simp add: s ensureMetricsSetup_call_def)
    ultimately show ?thesis by (simp add: s)
  qed
  from c1 c2 c3 c4 c5 show ?thesis by blast
qed

theorem setup_is_memoized_witness:
  "memo (run True [Call True, Settle 0 False, Call False, Call True, Call True, Settle 1 True])
     = Some 1
   \<and> attempts (run True [Call True, Settle 0 False, Call False, Call True, Call True, Settle 1 True])
     = [Rejected, Fulfilled]
   \<and> fst (ensureMetricsSetup_call True
        (run True [Call True, Settle 0 False, Call False, Call True, Call True, Settle 1 True]))
     = Memoized 1
   \<and> attempts (run True [Call True]) ! 0 = Pending
   \<and> memo (settle 0 False (run True [Call True])) = None
   \<and> fst (ensureMetricsSetup_call True (settle 0 False (run True [Call True]))) = Started 1"
proof -
  let ?t = "run True [Call True, Settle 0 False, Call False, Call True, Call True, Settle 1 True]"
  have m: "memo ?t = Some 1" and a: "attempts ?t = [Rejected, Fulfilled]"
    by (simp_all add: run_def ensureMetricsSetup_call_def settle_def)
  have p: "0 < length (attempts (run True [Call True])) \<and> attempts (run True [Call True]) ! 0 = Pending"
    and l: "length (attempts (run True [Call True])) = 1"
    by (simp_all add: run_def ensureMetricsSetup_call_def)
  have "memo ?t = Some 1 \<longrightarrow>
      ensureMetricsSetup_call True ?t = (Memoized 1, ?t)"
    using setup_is_memoized [where is_configured = True
        and events = "[Call True, Settle 0 False, Call False, Call True, Call True, Settle 1 True]"
        and p = 1 and metricsClient_ready = True]
    by blast
  with m have first: "fst (ensureMetricsSetup_call True ?t) = Memoized 1" by simp
  have "memo (settle 0 False (run True [Call True])) = None
      \<and> ensureMetricsSetup_call True (settle 0 False (run True [Call True]))
          = (Started (length (attempts (run True [Call True]))),
             (settle 0 False (run True [Call True]))
               \<lparr>memo := Some (length (attempts (run True [Call True]))),
                attempts := attempts (settle 0 False (run True [Call True])) @ [Pending]\<rparr>)"
    using p setup_is_memoized [where is_configured = True and events = "[Call True]" and p = 0]
    by blast
  then have second: "memo (settle 0 False (run True [Call True])) = None
        \<and> fst (ensureMetricsSetup_call True (settle 0 False (run True [Call True]))) = Started 1"
    by (simp add: l)
  from m a first second p show ?thesis by simp
qed

end
